theory Spec2Isabelle
  imports Complex_Main "HOL-Library.Word"
begin

section \<open>HalalVision content script: data model\<close>

text \<open>
  The repository ships three evolutions of one content script, \<^verbatim>\<open>src/unnamed/part_000\<close>
  (the current engine: Face-API with gender, BodyPix, loading overlay),
  \<^verbatim>\<open>part_001\<close> (the same engine without the overlay and with a lower gender threshold)
  and \<^verbatim>\<open>part_002\<close> (the oldest: a face model without gender and an unconditional
  fallback blur). The class \<^verbatim>\<open>BlurEngine\<close> is the same text in all three; the class
  \<^verbatim>\<open>HalalVisionDetector\<close> differs, so \<^verbatim>\<open>analyzeImage\<close> and
  \<^verbatim>\<open>hasPersonInSegmentation\<close> are embedded once per file. Unsuffixed names are those of
  \<^verbatim>\<open>part_000\<close>.

  JavaScript numbers are modelled as \<^typ>\<open>real\<close> (or \<^typ>\<open>int\<close> where the code only
  counts): rounding of IEEE doubles and the value NaN of a \<^emph>\<open>setting\<close> are outside the model.
  An exception is a value of \<open>js_error\<close>.
\<close>

datatype js_error = TypeError | RangeError | SecurityError | DetectorError

text \<open>
  The global \<^verbatim>\<open>settings\<close> object (defaults in
  \<^verbatim>\<open>src/background/service-worker.js\<close>). Only the fields read by the embedded
  methods are named; a JavaScript object is open, so every function below takes a
  record scheme and any further property a caller supplies lives in the extension.
\<close>

record settings =
  blurFaces :: bool
  blurBodies :: bool
  blurMen :: bool
  blurWomen :: bool
  blurIntensity :: real

text \<open>
  The specification's \<^verbatim>\<open>PolicySettings\<close> adds two thresholds that the defaults of the
  repository do not have; a caller who supplies them passes this extension.
\<close>

record policySettings = settings +
  genderConfidenceThreshold :: real
  bodyCoverageThreshold :: real

text \<open>A Face-API detection (\<^verbatim>\<open>detection.detection.box\<close>, \<^verbatim>\<open>gender\<close>,
  \<^verbatim>\<open>genderProbability\<close>) and the face rectangle the script stores.\<close>

record box =
  box_x :: real
  box_y :: real
  box_width :: real
  box_height :: real

record detection =
  gender :: string
  genderProbability :: real
  detection_box :: box

record face =
  topLeft :: "real \<times> real"
  bottomRight :: "real \<times> real"

text \<open>A BodyPix person segmentation: \<^verbatim>\<open>segmentation.data\<close> holds one number per
  pixel; the property may be missing.\<close>

record segmentation =
  seg_data :: "int list option"
  seg_width :: nat
  seg_height :: nat

text \<open>The object \<^verbatim>\<open>results\<close> that \<^verbatim>\<open>analyzeImage\<close> builds and returns.
  (\<^verbatim>\<open>shouldBlur\<close> may hold \<^verbatim>\<open>null\<close> in the script; every reader only tests its
  truthiness, which is the \<^typ>\<open>bool\<close> here.)\<close>

record results =
  faces :: "face list"
  bodySegmentation :: "segmentation option"
  shouldBlur :: bool
  isFallback :: bool

text \<open>The detector object: \<^verbatim>\<open>this.isLoaded\<close>, and whether \<^verbatim>\<open>this.bodyModel\<close> and
  (in \<^verbatim>\<open>part_002\<close>) \<^verbatim>\<open>this.faceModel\<close> are set.\<close>

record detector =
  isLoaded :: bool
  bodyModel :: bool
  faceModel :: bool

text \<open>
  What the external models answer for the image at hand, each call either throwing or
  returning: \<^verbatim>\<open>faceapi.detectAllFaces(img, {416 | 320}).withAgeAndGender()\<close>, the second,
  gender-free \<^verbatim>\<open>faceapi.detectAllFaces(img, {224})\<close>, \<^verbatim>\<open>bodyModel.segmentPerson\<close>, and
  (in \<^verbatim>\<open>part_002\<close>) \<^verbatim>\<open>faceModel.estimateFaces\<close>.
\<close>

record external =
  withAgeAndGender :: "js_error + detection list"
  detectAllFaces :: "js_error + box list"
  segmentPerson :: "js_error + segmentation"
  estimateFaces :: "js_error + face list"

section \<open>HalalVisionDetector\<close>

subsection \<open>The per-face gender policy (loop body of \<^verbatim>\<open>analyzeImage\<close>)\<close>

text \<open>\<^verbatim>\<open>let effectiveGender = gender; if (genderProbability < 0.7) effectiveGender = 'unknown';\<close>
  The literal is 0.7 in \<^verbatim>\<open>part_000\<close> and 0.6 in \<^verbatim>\<open>part_001\<close>; it is a parameter
  here and fixed by each \<^verbatim>\<open>analyzeImage\<close> below.\<close>

definition effectiveGender :: "real \<Rightarrow> detection \<Rightarrow> string" where
  "effectiveGender thr d = (if genderProbability d < thr then ''unknown'' else gender d)"

definition shouldBlurFace :: "real \<Rightarrow> 'a settings_scheme \<Rightarrow> detection \<Rightarrow> bool" where
  "shouldBlurFace thr s d =
     (let eg = effectiveGender thr d in
      if blurFaces s then True
      else (let b1 = (if blurMen s \<and> eg = ''male'' then True else False)
            in (if blurWomen s \<and> eg = ''female'' then True else b1)))"

definition toFace :: "box \<Rightarrow> face" where
  "toFace b = \<lparr>topLeft = (box_x b, box_y b),
               bottomRight = (box_x b + box_width b, box_y b + box_height b)\<rparr>"

text \<open>\<^verbatim>\<open>for (const detection of detections) { ... if (shouldBlurFace) results.faces.push(...) }\<close>\<close>

fun face_loop :: "real \<Rightarrow> 'a settings_scheme \<Rightarrow> detection list \<Rightarrow> face list \<Rightarrow> face list" where
  "face_loop thr s [] fs = fs"
| "face_loop thr s (d # ds) fs =
     face_loop thr s ds (if shouldBlurFace thr s d then fs @ [toFace (detection_box d)] else fs)"

subsection \<open>Body segmentation helpers\<close>

text \<open>\<^verbatim>\<open>segmentBody\<close>: no model gives \<^verbatim>\<open>null\<close>; an exception of
  \<^verbatim>\<open>segmentPerson\<close> is caught and gives \<^verbatim>\<open>null\<close>.\<close>

definition segmentBody :: "detector \<Rightarrow> external \<Rightarrow> segmentation option" where
  "segmentBody det ext =
     (if \<not> bodyModel det then None
      else (case segmentPerson ext of Inl e \<Rightarrow> None | Inr seg \<Rightarrow> Some seg))"

text \<open>\<^verbatim>\<open>hasPersonInSegmentation\<close>: the fraction is the literal 0.005 in \<^verbatim>\<open>part_000\<close>
  and \<^verbatim>\<open>part_001\<close>, 0.01 in \<^verbatim>\<open>part_002\<close>. The comparison
  \<^verbatim>\<open>personPixelCount > segmentation.data.length * 0.005\<close> is taken over the reals.\<close>

definition personPixelCount :: "int list \<Rightarrow> nat" where
  "personPixelCount xs = length (filter (\<lambda>val. val > 0) xs)"

definition hasPersonInSegmentation :: "segmentation option \<Rightarrow> bool" where
  "hasPersonInSegmentation sg =
     (case sg of None \<Rightarrow> False
      | Some seg \<Rightarrow>
         (case seg_data seg of None \<Rightarrow> False
          | Some xs \<Rightarrow> real (personPixelCount xs) > real (length xs) * 0.005))"

definition hasPersonInSegmentation_part002 :: "segmentation option \<Rightarrow> bool" where
  "hasPersonInSegmentation_part002 sg =
     (case sg of None \<Rightarrow> False
      | Some seg \<Rightarrow>
         (case seg_data seg of None \<Rightarrow> False
          | Some xs \<Rightarrow> real (personPixelCount xs) > real (length xs) * 0.01))"

subsection \<open>\<^verbatim>\<open>analyzeImage\<close> of \<^verbatim>\<open>part_000\<close> and \<^verbatim>\<open>part_001\<close>\<close>

text \<open>
  The body of the \<^verbatim>\<open>try\<close> block mutates \<^verbatim>\<open>results\<close> step by step; a step is a
  function from the object so far to the exception thrown (if any) and the object as
  it then stands.
\<close>

type_synonym step = "results \<Rightarrow> js_error option \<times> results"

definition and_then :: "js_error option \<times> results \<Rightarrow> step \<Rightarrow> js_error option \<times> results" where
  "and_then r f = (case r of (Some e, res) \<Rightarrow> (Some e, res) | (None, res) \<Rightarrow> f res)"

text \<open>Step 1, \<^verbatim>\<open>if (settings.blurFaces || settings.blurMen || settings.blurWomen) { ... }\<close>.\<close>

definition detectFacesStep :: "real \<Rightarrow> 'a settings_scheme \<Rightarrow> external \<Rightarrow> step" where
  "detectFacesStep thr s ext res =
     (if blurFaces s \<or> blurMen s \<or> blurWomen s then
        (case withAgeAndGender ext of
           Inl e \<Rightarrow> (Some e, res)
         | Inr detections \<Rightarrow> (None, res\<lparr>faces := face_loop thr s detections (faces res)\<rparr>))
      else (None, res))"

text \<open>The local \<^verbatim>\<open>runBodyPix\<close>: true when a face was flagged; otherwise the second
  detector call decides (and may throw).\<close>

definition runBodyPix :: "external \<Rightarrow> results \<Rightarrow> js_error + bool" where
  "runBodyPix ext res =
     (if length (faces res) > 0 then Inr True
      else (case detectAllFaces ext of
              Inl e \<Rightarrow> Inl e
            | Inr allFaces \<Rightarrow> (if length allFaces = 0 then Inr True else Inr False)))"

text \<open>Step 2, \<^verbatim>\<open>if (settings.blurBodies) { ... if (runBodyPix) results.bodySegmentation = ... }\<close>.\<close>

definition bodyStep :: "detector \<Rightarrow> 'a settings_scheme \<Rightarrow> external \<Rightarrow> step" where
  "bodyStep det s ext res =
     (if blurBodies s then
        (case runBodyPix ext res of
           Inl e \<Rightarrow> (Some e, res)
         | Inr run \<Rightarrow>
            (if run then (None, res\<lparr>bodySegmentation := segmentBody det ext\<rparr>)
             else (None, res)))
      else (None, res))"

text \<open>Step 3, \<^verbatim>\<open>results.shouldBlur = results.faces.length > 0 || (results.bodySegmentation
  && this.hasPersonInSegmentation(results.bodySegmentation))\<close>.\<close>

definition shouldBlurStep :: step where
  "shouldBlurStep res =
     (None, res\<lparr>shouldBlur := (length (faces res) > 0 \<or>
                    (bodySegmentation res \<noteq> None \<and> hasPersonInSegmentation (bodySegmentation res)))\<rparr>)"

definition analyzeImage_try :: "real \<Rightarrow> detector \<Rightarrow> 'a settings_scheme \<Rightarrow> external \<Rightarrow> step" where
  "analyzeImage_try thr det s ext res =
     and_then (and_then (detectFacesStep thr s ext res) (bodyStep det s ext)) shouldBlurStep"

text \<open>
  \<^verbatim>\<open>analyzeImage\<close>: when the models are not loaded the fresh \<^verbatim>\<open>results\<close> object is
  returned as it is (\<^verbatim>\<open>shouldBlur: false\<close>, \<^verbatim>\<open>isFallback: true\<close>); otherwise the
  \<^verbatim>\<open>try\<close> block runs and the \<^verbatim>\<open>catch\<close> clause, which is empty, lets the object
  through as the exception left it. No path rethrows, so the outcome is always \<open>Inr\<close>.
\<close>

definition initialResults :: "detector \<Rightarrow> results" where
  "initialResults det =
     \<lparr>faces = [], bodySegmentation = None, shouldBlur = False, isFallback = (\<not> isLoaded det)\<rparr>"

definition analyzeImage_with :: "real \<Rightarrow> detector \<Rightarrow> 'a settings_scheme \<Rightarrow> external \<Rightarrow> js_error + results" where
  "analyzeImage_with thr det s ext =
     (let res = initialResults det in
      if \<not> isLoaded det then Inr res
      else (case analyzeImage_try thr det s ext res of
              (Some err, res') \<Rightarrow> Inr res'
            | (None, res') \<Rightarrow> Inr res'))"

definition analyzeImage :: "detector \<Rightarrow> 'a settings_scheme \<Rightarrow> external \<Rightarrow> js_error + results" where
  "analyzeImage = analyzeImage_with 0.7"

definition analyzeImage_part001 :: "detector \<Rightarrow> 'a settings_scheme \<Rightarrow> external \<Rightarrow> js_error + results" where
  "analyzeImage_part001 = analyzeImage_with 0.6"

subsection \<open>\<^verbatim>\<open>analyzeImage\<close> of \<^verbatim>\<open>part_002\<close>\<close>

text \<open>\<^verbatim>\<open>detectFaces\<close>: no model gives \<^verbatim>\<open>[]\<close>; an exception of
  \<^verbatim>\<open>estimateFaces\<close> is caught, logged and gives \<^verbatim>\<open>[]\<close>.\<close>

definition detectFaces :: "detector \<Rightarrow> external \<Rightarrow> face list" where
  "detectFaces det ext =
     (if \<not> faceModel det then []
      else (case estimateFaces ext of Inl e \<Rightarrow> [] | Inr predictions \<Rightarrow> predictions))"

definition analyzeImage_try_part002 :: "detector \<Rightarrow> 'a settings_scheme \<Rightarrow> external \<Rightarrow> step" where
  "analyzeImage_try_part002 det s ext res =
     (let res1 = (if blurFaces s \<and> faceModel det then res\<lparr>faces := detectFaces det ext\<rparr> else res);
          res2 = (if blurBodies s \<and> bodyModel det
                  then res1\<lparr>bodySegmentation := segmentBody det ext\<rparr> else res1)
      in (None, res2\<lparr>shouldBlur := (length (faces res2) > 0 \<or>
                 (bodySegmentation res2 \<noteq> None
                    \<and> hasPersonInSegmentation_part002 (bodySegmentation res2)))\<rparr>))"

text \<open>Here the not-loaded path sets \<^verbatim>\<open>shouldBlur = true\<close> first, and the \<^verbatim>\<open>catch\<close>
  clause sets \<^verbatim>\<open>shouldBlur = true; isFallback = true\<close>.\<close>

definition analyzeImage_part002 :: "detector \<Rightarrow> 'a settings_scheme \<Rightarrow> external \<Rightarrow> js_error + results" where
  "analyzeImage_part002 det s ext =
     (let res = initialResults det in
      if \<not> isLoaded det then Inr (res\<lparr>shouldBlur := True\<rparr>)
      else (case analyzeImage_try_part002 det s ext res of
              (Some err, res') \<Rightarrow> Inr (res'\<lparr>shouldBlur := True, isFallback := True\<rparr>)
            | (None, res') \<Rightarrow> Inr res'))"

section \<open>BlurEngine\<close>

subsection \<open>\<^verbatim>\<open>stackBlur\<close> as it runs\<close>

text \<open>
  A \<^verbatim>\<open>Uint8ClampedArray\<close> is a list of bytes. \<^verbatim>\<open>stackBlur\<close> works in place, so the
  model returns the buffer as the call leaves it together with the exception it threw,
  if any.

  The constructor \<^verbatim>\<open>new Uint8ClampedArray(n)\<close> (and \<^verbatim>\<open>Uint32Array\<close>) truncates
  \<open>n\<close> towards zero and throws a RangeError when the result is negative or above
  \<open>2^53 - 1\<close>; an engine's smaller memory limit is not modelled.
\<close>

type_synonym bytes = "8 word list"

definition badLength :: "real \<Rightarrow> bool" where
  "badLength n = (n \<le> - 1 \<or> 2 ^ 53 \<le> n)"

text \<open>
  \<^verbatim>\<open>radius = Math.floor(radius); if (radius < 1) return;\<close> Then the five typed arrays
  are allocated, and then come the statements
  \<^verbatim>\<open>const divsum = (div + 1) >> 1; divsum *= divsum;\<close>. An assignment to a
  \<^verbatim>\<open>const\<close> binding throws a TypeError when it is executed, so every call with
  \<open>1 \<le> \<lfloor>radius\<rfloor>\<close> ends there; the two passes that follow in the text of the
  method are never reached. They are embedded on their own as \<open>stackBlur_passes\<close>
  below.
\<close>

definition stackBlur :: "bytes \<Rightarrow> real \<Rightarrow> real \<Rightarrow> real \<Rightarrow> js_error option \<times> bytes" where
  "stackBlur pixels width height radius0 =
     (let radius = \<lfloor>radius0\<rfloor> in
      if radius < 1 then (None, pixels)
      else if badLength (width * height) \<or> badLength (max width height)
        then (Some RangeError, pixels)
      else (Some TypeError, pixels))"

subsection \<open>\<^verbatim>\<open>stackBlur\<close>: the two passes in the text of the method\<close>

text \<open>
  The statements after \<^verbatim>\<open>divsum *= divsum\<close>, embedded for integer \<^verbatim>\<open>width\<close>,
  \<^verbatim>\<open>height\<close> and \<^verbatim>\<open>radius\<close> as they would run.

  A sum (\<^verbatim>\<open>rsum\<close>, \<^verbatim>\<open>gsum\<close>, \<^verbatim>\<open>bsum\<close>) is a JavaScript number that is either an
  integer or NaN; NaN is \<open>None\<close>. An index is a number too. Reading a typed array out
  of range gives \<^verbatim>\<open>undefined\<close>, which turns a sum into NaN; writing out of range
  does nothing; a \<^verbatim>\<open>Uint8ClampedArray\<close> stores NaN as 0 and clamps an integer to
  \<open>0..255\<close>; a \<^verbatim>\<open>Uint32Array\<close> stores an integer modulo \<open>2^32\<close>.
  \<^verbatim>\<open>Math.round(v)\<close> is \<open>\<lfloor>v + 1/2\<rfloor>\<close>; the quotient \<^verbatim>\<open>rsum / div\<close> is taken
  over the reals.
\<close>

type_synonym num = "int option"

definition nadd :: "num \<Rightarrow> num \<Rightarrow> num" where
  "nadd a b = (case a of None \<Rightarrow> None | Some x \<Rightarrow> (case b of None \<Rightarrow> None | Some y \<Rightarrow> Some (x + y)))"

definition nsub :: "num \<Rightarrow> num \<Rightarrow> num" where
  "nsub a b = (case a of None \<Rightarrow> None | Some x \<Rightarrow> (case b of None \<Rightarrow> None | Some y \<Rightarrow> Some (x - y)))"

definition mathRound :: "real \<Rightarrow> int" where
  "mathRound v = \<lfloor>v + 1 / 2\<rfloor>"

definition mathRoundDiv :: "num \<Rightarrow> int \<Rightarrow> num" where
  "mathRoundDiv a d = (case a of None \<Rightarrow> None | Some n \<Rightarrow> Some (mathRound (real_of_int n / real_of_int d)))"

definition toUint8Clamp :: "num \<Rightarrow> 8 word" where
  "toUint8Clamp a = (case a of None \<Rightarrow> 0 | Some n \<Rightarrow> word_of_int (max 0 (min 255 n)))"

definition rd8 :: "bytes \<Rightarrow> int \<Rightarrow> num" where
  "rd8 a i = (if 0 \<le> i \<and> i < int (length a) then Some (uint (a ! nat i)) else None)"

definition rd8n :: "bytes \<Rightarrow> num \<Rightarrow> int \<Rightarrow> num" where
  "rd8n a p off = (case p of None \<Rightarrow> None | Some i \<Rightarrow> rd8 a (i + off))"

definition wr8 :: "bytes \<Rightarrow> int \<Rightarrow> num \<Rightarrow> bytes" where
  "wr8 a i v = (if 0 \<le> i \<and> i < int (length a) then a[nat i := toUint8Clamp v] else a)"

definition rd32 :: "32 word list \<Rightarrow> int \<Rightarrow> num" where
  "rd32 a i = (if 0 \<le> i \<and> i < int (length a) then Some (uint (a ! nat i)) else None)"

definition wr32 :: "32 word list \<Rightarrow> int \<Rightarrow> int \<Rightarrow> 32 word list" where
  "wr32 a i v = (if 0 \<le> i \<and> i < int (length a) then a[nat i := word_of_int v] else a)"

text \<open>The variables of the method that the loops share.\<close>

record blur_state =
  sb_pixels :: bytes
  sb_r :: bytes
  sb_g :: bytes
  sb_b :: bytes
  sb_vmin :: "32 word list"
  sb_vmax :: "32 word list"
  sb_rsum :: num
  sb_gsum :: num
  sb_bsum :: num
  sb_yi :: int
  sb_yw :: int
  sb_yp :: int

text \<open>Horizontal pass, first inner loop:
  \<^verbatim>\<open>p = (yi + Math.min(wm, Math.max(i, 0))) * 4; rsum += pixels[p]; gsum += pixels[p + 1];
  bsum += pixels[p + 2];\<close>\<close>

definition hInitStep :: "int \<Rightarrow> blur_state \<Rightarrow> int \<Rightarrow> blur_state" where
  "hInitStep wm st i =
     (let p = (sb_yi st + min wm (max i 0)) * 4
      in st\<lparr>sb_rsum := nadd (sb_rsum st) (rd8 (sb_pixels st) p),
            sb_gsum := nadd (sb_gsum st) (rd8 (sb_pixels st) (p + 1)),
            sb_bsum := nadd (sb_bsum st) (rd8 (sb_pixels st) (p + 2))\<rparr>)"

text \<open>Horizontal pass, body of the loop over \<^verbatim>\<open>x\<close>:
  \<^verbatim>\<open>r[yi] = Math.round(rsum / div); ...; if (y === 0) { vmin[x] = Math.min(x + radius + 1, wm);
  vmax[x] = Math.max(x - radius, 0); } p = (yw + vmin[x]) * 4; const p2 = (yw + vmax[x]) * 4;
  rsum += pixels[p] - pixels[p2]; ...; yi++;\<close>\<close>

definition hStep :: "int \<Rightarrow> int \<Rightarrow> int \<Rightarrow> int \<Rightarrow> blur_state \<Rightarrow> int \<Rightarrow> blur_state" where
  "hStep radius wm dv y st x =
     (let st1 = st\<lparr>sb_r := wr8 (sb_r st) (sb_yi st) (mathRoundDiv (sb_rsum st) dv),
                   sb_g := wr8 (sb_g st) (sb_yi st) (mathRoundDiv (sb_gsum st) dv),
                   sb_b := wr8 (sb_b st) (sb_yi st) (mathRoundDiv (sb_bsum st) dv)\<rparr>;
          st2 = (if y = 0
                 then st1\<lparr>sb_vmin := wr32 (sb_vmin st1) x (min (x + radius + 1) wm),
                          sb_vmax := wr32 (sb_vmax st1) x (max (x - radius) 0)\<rparr>
                 else st1);
          p = map_option (\<lambda>v. (sb_yw st2 + v) * 4) (rd32 (sb_vmin st2) x);
          p2 = map_option (\<lambda>v. (sb_yw st2 + v) * 4) (rd32 (sb_vmax st2) x);
          px = sb_pixels st2
      in st2\<lparr>sb_rsum := nadd (sb_rsum st2) (nsub (rd8n px p 0) (rd8n px p2 0)),
             sb_gsum := nadd (sb_gsum st2) (nsub (rd8n px p 1) (rd8n px p2 1)),
             sb_bsum := nadd (sb_bsum st2) (nsub (rd8n px p 2) (rd8n px p2 2)),
             sb_yi := sb_yi st2 + 1\<rparr>)"

text \<open>Horizontal pass, body of the loop over \<^verbatim>\<open>y\<close>:
  \<^verbatim>\<open>rsum = gsum = bsum = 0; for (i = -radius; i <= radius; i++) {...}
  for (x = 0; x < width; x++) {...} yw += width;\<close>\<close>

definition hRow :: "int \<Rightarrow> int \<Rightarrow> int \<Rightarrow> int \<Rightarrow> blur_state \<Rightarrow> int \<Rightarrow> blur_state" where
  "hRow width radius wm dv st y =
     (let st1 = st\<lparr>sb_rsum := Some 0, sb_gsum := Some 0, sb_bsum := Some 0\<rparr>;
          st2 = foldl (hInitStep wm) st1 [- radius..radius];
          st3 = foldl (hStep radius wm dv y) st2 (map int [0..<nat width])
      in st3\<lparr>sb_yw := sb_yw st3 + width\<rparr>)"

text \<open>Vertical pass, first inner loop:
  \<^verbatim>\<open>yi = Math.max(0, yp) + x; rsum += r[yi]; gsum += g[yi]; bsum += b[yi]; yp += width;\<close>
  The row is bounded below only: there is no \<^verbatim>\<open>Math.min\<close> with the last row here.\<close>

definition vInitStep :: "int \<Rightarrow> int \<Rightarrow> blur_state \<Rightarrow> int \<Rightarrow> blur_state" where
  "vInitStep width x st i =
     (let yi = max 0 (sb_yp st) + x
      in st\<lparr>sb_yi := yi,
            sb_rsum := nadd (sb_rsum st) (rd8 (sb_r st) yi),
            sb_gsum := nadd (sb_gsum st) (rd8 (sb_g st) yi),
            sb_bsum := nadd (sb_bsum st) (rd8 (sb_b st) yi),
            sb_yp := sb_yp st + width\<rparr>)"

text \<open>Vertical pass, body of the loop over \<^verbatim>\<open>y\<close>:
  \<^verbatim>\<open>pixels[yi * 4] = Math.round(rsum / div); pixels[yi * 4 + 1] = ...; pixels[yi * 4 + 2] = ...;
  if (x === 0) { vmin[y] = Math.min(y + radius + 1, hm) * width;
  vmax[y] = Math.max(y - radius, 0) * width; } const p1 = x + vmin[y]; const p2 = x + vmax[y];
  rsum += r[p1] - r[p2]; ...; yi += width;\<close>\<close>

definition vStep :: "int \<Rightarrow> int \<Rightarrow> int \<Rightarrow> int \<Rightarrow> int \<Rightarrow> blur_state \<Rightarrow> int \<Rightarrow> blur_state" where
  "vStep width radius hm dv x st y =
     (let yi = sb_yi st;
          px1 = wr8 (sb_pixels st) (yi * 4) (mathRoundDiv (sb_rsum st) dv);
          px2 = wr8 px1 (yi * 4 + 1) (mathRoundDiv (sb_gsum st) dv);
          px3 = wr8 px2 (yi * 4 + 2) (mathRoundDiv (sb_bsum st) dv);
          st1 = st\<lparr>sb_pixels := px3\<rparr>;
          st2 = (if x = 0
                 then st1\<lparr>sb_vmin := wr32 (sb_vmin st1) y (min (y + radius + 1) hm * width),
                          sb_vmax := wr32 (sb_vmax st1) y (max (y - radius) 0 * width)\<rparr>
                 else st1);
          p1 = map_option (\<lambda>v. x + v) (rd32 (sb_vmin st2) y);
          p2 = map_option (\<lambda>v. x + v) (rd32 (sb_vmax st2) y)
      in st2\<lparr>sb_rsum := nadd (sb_rsum st2) (nsub (rd8n (sb_r st2) p1 0) (rd8n (sb_r st2) p2 0)),
             sb_gsum := nadd (sb_gsum st2) (nsub (rd8n (sb_g st2) p1 0) (rd8n (sb_g st2) p2 0)),
             sb_bsum := nadd (sb_bsum st2) (nsub (rd8n (sb_b st2) p1 0) (rd8n (sb_b st2) p2 0)),
             sb_yi := sb_yi st2 + width\<rparr>)"

text \<open>Vertical pass, body of the loop over \<^verbatim>\<open>x\<close>:
  \<^verbatim>\<open>rsum = gsum = bsum = 0; yp = -radius * width; for (i = -radius; i <= radius; i++) {...}
  yi = x; for (y = 0; y < height; y++) {...}\<close>\<close>

definition vCol :: "int \<Rightarrow> int \<Rightarrow> int \<Rightarrow> int \<Rightarrow> int \<Rightarrow> blur_state \<Rightarrow> int \<Rightarrow> blur_state" where
  "vCol width height radius hm dv st x =
     (let st1 = st\<lparr>sb_rsum := Some 0, sb_gsum := Some 0, sb_bsum := Some 0,
                   sb_yp := - radius * width\<rparr>;
          st2 = foldl (vInitStep width x) st1 [- radius..radius];
          st3 = st2\<lparr>sb_yi := x\<rparr>
      in foldl (vStep width radius hm dv x) st3 (map int [0..<nat height]))"

text \<open>The declarations (\<^verbatim>\<open>wm\<close>, \<^verbatim>\<open>hm\<close>, \<^verbatim>\<open>wh\<close>, \<^verbatim>\<open>div\<close>, the zero-filled arrays,
  \<^verbatim>\<open>yw = yi = 0\<close>) and the two passes; the result is the buffer.\<close>

definition stackBlur_passes :: "bytes \<Rightarrow> int \<Rightarrow> int \<Rightarrow> int \<Rightarrow> bytes" where
  "stackBlur_passes pixels width height radius =
     (let wm = width - 1;
          hm = height - 1;
          wh = width * height;
          dv = radius + radius + 1;
          st0 = \<lparr>sb_pixels = pixels,
                 sb_r = replicate (nat wh) 0, sb_g = replicate (nat wh) 0, sb_b = replicate (nat wh) 0,
                 sb_vmin = replicate (nat (max width height)) 0,
                 sb_vmax = replicate (nat (max width height)) 0,
                 sb_rsum = None, sb_gsum = None, sb_bsum = None,
                 sb_yi = 0, sb_yw = 0, sb_yp = 0\<rparr>;
          st1 = foldl (hRow width radius wm dv) st0 (map int [0..<nat height]);
          st2 = foldl (vCol width height radius hm dv) st1 (map int [0..<nat width])
      in sb_pixels st2)"

subsection \<open>The box average in the words of the specification\<close>

text \<open>
  A window of width \<open>2 \<cdot> radius + 1\<close> centred at a position, indices clamped to
  \<open>[0, n - 1]\<close>; the window sum divided by the window width and rounded to the nearest
  integer; applied along the rows, then along the columns of the intermediate result;
  alpha untouched. This is the reference the passes are compared with, not code of the
  repository.
\<close>

definition clampIndex :: "int \<Rightarrow> int \<Rightarrow> int" where
  "clampIndex n i = max 0 (min (n - 1) i)"

definition windowSum :: "(int \<Rightarrow> int) \<Rightarrow> int \<Rightarrow> int \<Rightarrow> int \<Rightarrow> int" where
  "windowSum f n radius x = sum_list (map (\<lambda>i. f (clampIndex n (x + i))) [- radius..radius])"

definition boxAverage :: "(int \<Rightarrow> int) \<Rightarrow> int \<Rightarrow> int \<Rightarrow> int \<Rightarrow> int" where
  "boxAverage f n radius x =
     round (real_of_int (windowSum f n radius x) / real_of_int (2 * radius + 1))"

definition channelAt :: "bytes \<Rightarrow> int \<Rightarrow> int \<Rightarrow> int \<Rightarrow> int \<Rightarrow> int" where
  "channelAt pixels width c x y = uint (pixels ! nat ((y * width + x) * 4 + c))"

definition naive_horizontal :: "bytes \<Rightarrow> int \<Rightarrow> int \<Rightarrow> int \<Rightarrow> int \<Rightarrow> int \<Rightarrow> int" where
  "naive_horizontal pixels width radius c x y =
     boxAverage (\<lambda>x'. channelAt pixels width c x' y) width radius x"

definition naive_vertical :: "bytes \<Rightarrow> int \<Rightarrow> int \<Rightarrow> int \<Rightarrow> int \<Rightarrow> int \<Rightarrow> int \<Rightarrow> int" where
  "naive_vertical pixels width height radius c x y =
     boxAverage (\<lambda>y'. naive_horizontal pixels width radius c x y') height radius y"

definition naive_box_blur :: "bytes \<Rightarrow> int \<Rightarrow> int \<Rightarrow> int \<Rightarrow> bytes" where
  "naive_box_blur pixels width height radius =
     map (\<lambda>j. if j mod 4 = 3 then pixels ! j
              else word_of_int (naive_vertical pixels width height radius (int (j mod 4))
                     (int (j div 4) mod width) (int (j div 4) div width)))
       [0..<length pixels]"

text \<open>Valid geometry: a buffer of \<open>width \<times> height\<close> RGBA pixels, small enough for the
  32-bit side tables.\<close>

definition valid_geometry :: "bytes \<Rightarrow> int \<Rightarrow> int \<Rightarrow> int \<Rightarrow> bool" where
  "valid_geometry pixels width height radius =
     (1 \<le> width \<and> 1 \<le> height \<and> 0 \<le> radius
      \<and> int (length pixels) = 4 * width * height \<and> width * height < 2 ^ 32)"

text \<open>Two buffers agree on their alpha bytes, and on the bytes of channel \<open>c\<close>.\<close>

definition alpha_kept :: "bytes \<Rightarrow> bytes \<Rightarrow> bool" where
  "alpha_kept p q = (length q = length p \<and> (\<forall>j < length p. j mod 4 = 3 \<longrightarrow> q ! j = p ! j))"

definition same_channel :: "int \<Rightarrow> bytes \<Rightarrow> bytes \<Rightarrow> bool" where
  "same_channel c p q =
     (length p = length q \<and> (\<forall>j < length p. int j mod 4 = c \<longrightarrow> p ! j = q ! j))"

subsection \<open>Invariants of the passes\<close>

text \<open>The array and the sum of channel \<open>c\<close>, and the relation between two runs that
  agree on channel \<open>c\<close>.\<close>

definition chan_arr :: "int \<Rightarrow> blur_state \<Rightarrow> bytes" where
  "chan_arr c st = (if c = 0 then sb_r st else if c = 1 then sb_g st else sb_b st)"

definition chan_sum :: "int \<Rightarrow> blur_state \<Rightarrow> num" where
  "chan_sum c st = (if c = 0 then sb_rsum st else if c = 1 then sb_gsum st else sb_bsum st)"

definition chan_rel :: "int \<Rightarrow> blur_state \<Rightarrow> blur_state \<Rightarrow> bool" where
  "chan_rel c s t =
     (same_channel c (sb_pixels s) (sb_pixels t) \<and> chan_arr c s = chan_arr c t
      \<and> chan_sum c s = chan_sum c t \<and> sb_vmin s = sb_vmin t \<and> sb_vmax s = sb_vmax t
      \<and> sb_yi s = sb_yi t \<and> sb_yw s = sb_yw t \<and> sb_yp s = sb_yp t)"

text \<open>Horizontal pass: after \<open>k\<close> cells in row-major order the arrays hold the row
  averages of those cells and the side tables hold the window ends of the columns seen;
  inside row \<open>y\<close> at column \<open>x\<close> the sums are the window sums at \<open>x\<close>.\<close>

definition Hval :: "bytes \<Rightarrow> int \<Rightarrow> int \<Rightarrow> int \<Rightarrow> int \<Rightarrow> int" where
  "Hval pixels width radius c j = naive_horizontal pixels width radius c (j mod width) (j div width)"

definition hinv :: "bytes \<Rightarrow> int \<Rightarrow> int \<Rightarrow> int \<Rightarrow> int \<Rightarrow> blur_state \<Rightarrow> bool" where
  "hinv pixels width height radius k st =
     (sb_pixels st = pixels
      \<and> (\<forall>c. c = 0 \<or> c = 1 \<or> c = 2 \<longrightarrow> length (chan_arr c st) = nat (width * height))
      \<and> length (sb_vmin st) = nat (max width height)
      \<and> length (sb_vmax st) = nat (max width height)
      \<and> (\<forall>c j. (c = 0 \<or> c = 1 \<or> c = 2) \<and> 0 \<le> j \<and> j < k \<longrightarrow>
             uint (chan_arr c st ! nat j) = Hval pixels width radius c j)
      \<and> (\<forall>x. 0 \<le> x \<and> x < min k width \<longrightarrow>
             uint (sb_vmin st ! nat x) = min (x + radius + 1) (width - 1)
             \<and> uint (sb_vmax st ! nat x) = max (x - radius) 0)
      \<and> sb_yi st = k)"

definition hrow_inv :: "bytes \<Rightarrow> int \<Rightarrow> int \<Rightarrow> int \<Rightarrow> int \<Rightarrow> int \<Rightarrow> blur_state \<Rightarrow> bool" where
  "hrow_inv pixels width height radius y x st =
     (hinv pixels width height radius (y * width + x) st
      \<and> sb_yw st = y * width
      \<and> (\<forall>c. c = 0 \<or> c = 1 \<or> c = 2 \<longrightarrow>
            chan_sum c st = Some (windowSum (\<lambda>x'. channelAt pixels width c x' y) width radius x)))"

text \<open>Vertical pass: the arrays hold all row averages; a pixel whose cell was passed in
  column-major order holds the final average, any other byte its original value; inside
  column \<open>x\<close> at row \<open>y\<close> the sums are the window sums at \<open>y\<close>.\<close>

definition harr :: "bytes \<Rightarrow> int \<Rightarrow> int \<Rightarrow> int \<Rightarrow> blur_state \<Rightarrow> bool" where
  "harr pixels width height radius st =
     ((\<forall>c. c = 0 \<or> c = 1 \<or> c = 2 \<longrightarrow> length (chan_arr c st) = nat (width * height))
      \<and> (\<forall>c j. (c = 0 \<or> c = 1 \<or> c = 2) \<and> 0 \<le> j \<and> j < width * height \<longrightarrow>
             uint (chan_arr c st ! nat j) = Hval pixels width radius c j))"

definition vdone :: "int \<Rightarrow> int \<Rightarrow> int \<Rightarrow> int \<Rightarrow> bool" where
  "vdone x y x' y' = (x' < x \<or> (x' = x \<and> y' < y))"

definition Vpix :: "bytes \<Rightarrow> int \<Rightarrow> int \<Rightarrow> int \<Rightarrow> int \<Rightarrow> int \<Rightarrow> nat \<Rightarrow> 8 word" where
  "Vpix pixels width height radius x y j =
     (if j mod 4 \<noteq> 3 \<and> vdone x y (int (j div 4) mod width) (int (j div 4) div width)
      then word_of_int (naive_vertical pixels width height radius (int (j mod 4))
             (int (j div 4) mod width) (int (j div 4) div width))
      else pixels ! j)"

definition vinv :: "bytes \<Rightarrow> int \<Rightarrow> int \<Rightarrow> int \<Rightarrow> int \<Rightarrow> int \<Rightarrow> blur_state \<Rightarrow> bool" where
  "vinv pixels width height radius x y st =
     (harr pixels width height radius st
      \<and> length (sb_vmin st) = nat (max width height)
      \<and> length (sb_vmax st) = nat (max width height)
      \<and> (\<forall>y'. 0 \<le> y' \<and> y' < (if x = 0 then y else height) \<longrightarrow>
             uint (sb_vmin st ! nat y') = min (y' + radius + 1) (height - 1) * width
             \<and> uint (sb_vmax st ! nat y') = max (y' - radius) 0 * width)
      \<and> length (sb_pixels st) = length pixels
      \<and> (\<forall>j. j < length pixels \<longrightarrow> sb_pixels st ! j = Vpix pixels width height radius x y j))"

definition vcol_inv :: "bytes \<Rightarrow> int \<Rightarrow> int \<Rightarrow> int \<Rightarrow> int \<Rightarrow> int \<Rightarrow> blur_state \<Rightarrow> bool" where
  "vcol_inv pixels width height radius x y st =
     (vinv pixels width height radius x y st
      \<and> sb_yi st = y * width + x
      \<and> (\<forall>c. c = 0 \<or> c = 1 \<or> c = 2 \<longrightarrow>
            chan_sum c st
              = Some (windowSum (\<lambda>y'. naive_horizontal pixels width radius c x y') height radius y)))"

subsection \<open>\<^verbatim>\<open>blurRegion\<close>: the padded rectangle\<close>

text \<open>
  The rectangle \<^verbatim>\<open>(expandedX, expandedY, expandedWidth, expandedHeight)\<close> that
  \<^verbatim>\<open>blurRegion\<close> hands to \<^verbatim>\<open>ctx.getImageData\<close> and, for the origin, to
  \<^verbatim>\<open>ctx.putImageData\<close>. The literal 0.2 is taken as the real \<open>1/5\<close>.
\<close>

type_synonym rect = "real \<times> real \<times> real \<times> real"

definition blurRegion_rect :: "real \<times> real \<Rightarrow> real \<times> real \<Rightarrow> rect" where
  "blurRegion_rect topLeftPt bottomRightPt =
     (let x = fst topLeftPt;
          y = snd topLeftPt;
          width = fst bottomRightPt - fst topLeftPt;
          height = snd bottomRightPt - snd topLeftPt;
          padding = max width height * 0.2;
          expandedX = max 0 (x - padding);
          expandedY = max 0 (y - padding);
          expandedWidth = width + padding * 2;
          expandedHeight = height + padding * 2
      in (expandedX, expandedY, expandedWidth, expandedHeight))"

text \<open>A rectangle \<open>(x, y, w, h)\<close> lies within a frame of \<open>W \<times> H\<close> pixels.\<close>

definition rect_in_frame :: "real \<Rightarrow> real \<Rightarrow> rect \<Rightarrow> bool" where
  "rect_in_frame W H rc =
     (case rc of (x, y, w, h) \<Rightarrow> 0 \<le> x \<and> 0 \<le> y \<and> x + w \<le> W \<and> y + h \<le> H)"

subsection \<open>\<^verbatim>\<open>applyBlurredOverlay\<close> and the \<^verbatim>\<open>blurredElements\<close> map\<close>


datatype canvas = Canvas string | TaintedCanvas







section \<open>Properties of the detector\<close>

subsection \<open>Auxiliary facts\<close>

lemma face_loop_filter:
  "face_loop thr s ds fs = fs @ map (toFace \<circ> detection_box) (filter (shouldBlurFace thr s) ds)"
  by (induction ds arbitrary: fs) auto

lemma shouldBlurFace_iff:
  "shouldBlurFace thr s d \<longleftrightarrow>
     blurFaces s \<or> (blurMen s \<and> effectiveGender thr d = ''male'')
       \<or> (blurWomen s \<and> effectiveGender thr d = ''female'')"
  by (auto simp: shouldBlurFace_def Let_def)

lemma filter_no_flags:
  "\<not> blurFaces s \<Longrightarrow> \<not> blurMen s \<Longrightarrow> \<not> blurWomen s \<Longrightarrow> filter (shouldBlurFace thr s) ds = []"
  by (induction ds) (auto simp: shouldBlurFace_iff)

lemma analyzeImage_with_faces:
  assumes "isLoaded det" "withAgeAndGender ext = Inr ds"
  shows "\<exists>res. analyzeImage_with thr det s ext = Inr res
           \<and> faces res = map (toFace \<circ> detection_box) (filter (shouldBlurFace thr s) ds)"
  using assms
  by (auto simp: analyzeImage_with_def analyzeImage_try_def detectFacesStep_def bodyStep_def
      shouldBlurStep_def and_then_def initialResults_def face_loop_filter filter_no_flags Let_def
      split: sum.splits prod.splits option.splits if_splits)

lemma runBodyPix_ok:
  "detectAllFaces ext = Inr allFaces \<Longrightarrow>
     runBodyPix ext res = Inr (faces res \<noteq> [] \<or> allFaces = [])"
  by (simp add: runBodyPix_def)

lemma analyzeImage_with_body:
  assumes "isLoaded det" "blurBodies s" "withAgeAndGender ext = Inr ds"
    "detectAllFaces ext = Inr allFaces"
  shows "\<exists>res. analyzeImage_with thr det s ext = Inr res
      \<and> faces res = map (toFace \<circ> detection_box) (filter (shouldBlurFace thr s) ds)
      \<and> bodySegmentation res
          = (if faces res \<noteq> [] \<or> allFaces = [] then segmentBody det ext else None)
      \<and> (shouldBlur res \<longleftrightarrow> faces res \<noteq> [] \<or> hasPersonInSegmentation (bodySegmentation res))"
  using assms
  by (auto simp: analyzeImage_with_def analyzeImage_try_def detectFacesStep_def bodyStep_def
      shouldBlurStep_def and_then_def initialResults_def face_loop_filter filter_no_flags Let_def
      runBodyPix_def hasPersonInSegmentation_def
      split: sum.splits prod.splits option.splits if_splits)

lemma analyzeImage_with_total:
  "\<exists>res. analyzeImage_with thr det s ext = Inr res \<and> isFallback res = (\<not> isLoaded det)"
  by (auto simp: analyzeImage_with_def analyzeImage_try_def detectFacesStep_def bodyStep_def
      shouldBlurStep_def and_then_def initialResults_def Let_def
      split: sum.splits prod.splits option.splits if_splits)

lemma analyzeImage_with_face_throw:
  assumes "isLoaded det" "blurFaces s \<or> blurMen s \<or> blurWomen s" "withAgeAndGender ext = Inl e"
  shows "analyzeImage_with thr det s ext
    = Inr \<lparr>faces = [], bodySegmentation = None, shouldBlur = False, isFallback = False\<rparr>"
  using assms
  by (auto simp: analyzeImage_with_def analyzeImage_try_def detectFacesStep_def
      and_then_def initialResults_def Let_def)

lemma analyzeImage_with_second_throw:
  assumes "isLoaded det" "blurBodies s" "detectAllFaces ext = Inl e"
   "analyzeImage_with thr det s ext = Inr res" "faces res = []"
  shows "res = \<lparr>faces = [], bodySegmentation = None, shouldBlur = False, isFallback = False\<rparr>"
  using assms
  by (auto simp: analyzeImage_with_def analyzeImage_try_def detectFacesStep_def bodyStep_def
      shouldBlurStep_def and_then_def initialResults_def Let_def runBodyPix_def
      split: sum.splits prod.splits option.splits if_splits)

lemma analyzeImage_part002_total:
  "isLoaded det \<Longrightarrow> \<exists>res. analyzeImage_part002 det s ext = Inr res \<and> \<not> isFallback res"
  by (auto simp: analyzeImage_part002_def analyzeImage_try_part002_def initialResults_def Let_def)

lemma shouldBlurFace_cong:
  fixes s :: "'a settings_scheme" and s' :: "'b settings_scheme"
  assumes "blurFaces s = blurFaces s'" "blurMen s = blurMen s'" "blurWomen s = blurWomen s'"
  shows "shouldBlurFace thr s = shouldBlurFace thr s'"
  using assms by (auto simp: fun_eq_iff shouldBlurFace_iff)

lemma analyzeImage_with_cong:
  fixes s :: "'a settings_scheme" and s' :: "'b settings_scheme"
  assumes "blurFaces s = blurFaces s'" "blurMen s = blurMen s'" "blurWomen s = blurWomen s'"
     "blurBodies s = blurBodies s'"
  shows "analyzeImage_with thr det s ext = analyzeImage_with thr det s' ext"
proof -
  have f: "face_loop thr s ds fs = face_loop thr s' ds fs" for ds fs
    using shouldBlurFace_cong [OF assms(1-3), of thr] by (simp add: face_loop_filter)
  have d: "detectFacesStep thr s ext res = detectFacesStep thr s' ext res" for res
    using assms f by (simp add: detectFacesStep_def split: sum.splits)
  have b: "bodyStep det s ext res = bodyStep det s' ext res" for res
    using assms by (simp add: bodyStep_def)
  have "analyzeImage_try thr det s ext res = analyzeImage_try thr det s' ext res" for res
    by (simp add: analyzeImage_try_def d b fun_eq_iff and_then_def split: prod.splits option.splits)
  then show ?thesis
    by (simp add: analyzeImage_with_def Let_def)
qed

subsection \<open>The detector is not loaded\<close>

text \<open>
  Claim C1, as amended. When the models are not loaded, \<^verbatim>\<open>analyzeImage\<close> returns
  \<^verbatim>\<open>isFallback = true\<close> with no faces and no mask, whatever the settings and the image.
  \<^verbatim>\<open>shouldBlur\<close> is false in \<^verbatim>\<open>part_000\<close> and \<^verbatim>\<open>part_001\<close> (the analysis is
  skipped, and \<^verbatim>\<open>processImage\<close> blurs nothing) and true only in \<^verbatim>\<open>part_002\<close>.
\<close>

theorem C1_not_loaded:
  "\<not> isLoaded det \<Longrightarrow>
     analyzeImage det s ext
       = Inr \<lparr>faces = [], bodySegmentation = None, shouldBlur = False, isFallback = True\<rparr>
   \<and> analyzeImage_part001 det s ext
       = Inr \<lparr>faces = [], bodySegmentation = None, shouldBlur = False, isFallback = True\<rparr>
   \<and> analyzeImage_part002 det s ext
       = Inr \<lparr>faces = [], bodySegmentation = None, shouldBlur = True, isFallback = True\<rparr>"
  by (simp add: analyzeImage_def analyzeImage_part001_def analyzeImage_with_def
      analyzeImage_part002_def initialResults_def)

theorem C1_witness:
  "\<not> isLoaded \<lparr>isLoaded = False, bodyModel = True, faceModel = True\<rparr>
   \<and> analyzeImage_part001 \<lparr>isLoaded = False, bodyModel = True, faceModel = True\<rparr>
     \<lparr>blurFaces = True, blurBodies = True, blurMen = True, blurWomen = True, blurIntensity = 25\<rparr>
     \<lparr>withAgeAndGender = Inr [], detectAllFaces = Inr [], segmentPerson = Inl DetectorError,
      estimateFaces = Inr []\<rparr>
       = Inr \<lparr>faces = [], bodySegmentation = None, shouldBlur = False, isFallback = True\<rparr>
   \<and> analyzeImage_part002 \<lparr>isLoaded = False, bodyModel = True, faceModel = True\<rparr>
     \<lparr>blurFaces = True, blurBodies = True, blurMen = True, blurWomen = True, blurIntensity = 25\<rparr>
     \<lparr>withAgeAndGender = Inr [], detectAllFaces = Inr [], segmentPerson = Inl DetectorError,
      estimateFaces = Inr []\<rparr>
       = Inr \<lparr>faces = [], bodySegmentation = None, shouldBlur = True, isFallback = True\<rparr>"
  using C1_not_loaded [of "\<lparr>isLoaded = False, bodyModel = True, faceModel = True\<rparr>"
     "\<lparr>blurFaces = True, blurBodies = True, blurMen = True, blurWomen = True, blurIntensity = 25\<rparr>"
     "\<lparr>withAgeAndGender = Inr [], detectAllFaces = Inr [], segmentPerson = Inl DetectorError,
      estimateFaces = Inr []\<rparr>"]
  by simp

text \<open>
  Claim C1 as stated fails in the current engine: an unloaded detector of \<^verbatim>\<open>part_000\<close>
  answers \<^verbatim>\<open>shouldBlur = false\<close>.
\<close>

theorem C1_counterexample:
  "analyzeImage \<lparr>isLoaded = False, bodyModel = True, faceModel = True\<rparr>
     \<lparr>blurFaces = True, blurBodies = True, blurMen = True, blurWomen = True, blurIntensity = 25\<rparr>
     \<lparr>withAgeAndGender = Inr [], detectAllFaces = Inr [], segmentPerson = Inl DetectorError,
      estimateFaces = Inr []\<rparr>
   = Inr \<lparr>faces = [], bodySegmentation = None, shouldBlur = False, isFallback = True\<rparr>"
  by (simp add: analyzeImage_def analyzeImage_with_def initialResults_def)

subsection \<open>The gender policy\<close>

text \<open>
  Claim C3, as amended. A face is pushed to \<^verbatim>\<open>results.faces\<close> if and only if
  \<^verbatim>\<open>blurFaces\<close> is set, or \<^verbatim>\<open>blurMen\<close> is set and its effective gender is male, or
  \<^verbatim>\<open>blurWomen\<close> is set and its effective gender is female; the effective gender is the
  detected one at or above the threshold and \<^verbatim>\<open>'unknown'\<close> below it, and an unknown face
  is flagged through \<^verbatim>\<open>blurFaces\<close> only (first three conjuncts, for the loop body at any
  threshold). The threshold of \<^verbatim>\<open>analyzeImage\<close> is the literal of the file, 0.7 in
  \<^verbatim>\<open>part_000\<close> and 0.6 in \<^verbatim>\<open>part_001\<close> (fourth conjunct, read off the returned
  object). It is not a setting: a \<^verbatim>\<open>genderConfidenceThreshold\<close> supplied with the settings
  is never read, and whatever its value the result is the same (last two conjuncts).
\<close>

theorem C3_face_policy:
  "(shouldBlurFace thr s d \<longleftrightarrow>
      blurFaces s \<or> (blurMen s \<and> effectiveGender thr d = ''male'')
        \<or> (blurWomen s \<and> effectiveGender thr d = ''female''))
   \<and> effectiveGender thr d = (if thr \<le> genderProbability d then gender d else ''unknown'')
   \<and> (effectiveGender thr d = ''unknown'' \<longrightarrow> (shouldBlurFace thr s d \<longleftrightarrow> blurFaces s))
   \<and> (isLoaded det \<and> withAgeAndGender ext = Inr ds \<longrightarrow>
        (\<exists>res. analyzeImage det s ext = Inr res
           \<and> faces res = map (toFace \<circ> detection_box) (filter (shouldBlurFace 0.7 s) ds))
      \<and> (\<exists>res. analyzeImage_part001 det s ext = Inr res
           \<and> faces res = map (toFace \<circ> detection_box) (filter (shouldBlurFace 0.6 s) ds)))
   \<and> analyzeImage det (ps\<lparr>genderConfidenceThreshold := t\<rparr>) ext = analyzeImage det ps ext
   \<and> analyzeImage_part001 det (ps\<lparr>genderConfidenceThreshold := t\<rparr>) ext
       = analyzeImage_part001 det ps ext"
proof -
  have a: "shouldBlurFace thr s d \<longleftrightarrow>
      blurFaces s \<or> (blurMen s \<and> effectiveGender thr d = ''male'')
        \<or> (blurWomen s \<and> effectiveGender thr d = ''female'')"
    by (rule shouldBlurFace_iff)
  have b: "effectiveGender thr d = (if thr \<le> genderProbability d then gender d else ''unknown'')"
    by (simp add: effectiveGender_def)
  have c: "effectiveGender thr d = ''unknown'' \<longrightarrow> (shouldBlurFace thr s d \<longleftrightarrow> blurFaces s)"
    by (simp add: shouldBlurFace_iff)
  have d: "isLoaded det \<and> withAgeAndGender ext = Inr ds \<longrightarrow>
        (\<exists>res. analyzeImage det s ext = Inr res
           \<and> faces res = map (toFace \<circ> detection_box) (filter (shouldBlurFace 0.7 s) ds))
      \<and> (\<exists>res. analyzeImage_part001 det s ext = Inr res
           \<and> faces res = map (toFace \<circ> detection_box) (filter (shouldBlurFace 0.6 s) ds))"
    unfolding analyzeImage_def analyzeImage_part001_def
    using analyzeImage_with_faces by blast
  have e: "analyzeImage_with thr' det (ps\<lparr>genderConfidenceThreshold := t\<rparr>) ext
             = analyzeImage_with thr' det ps ext" for thr'
    by (rule analyzeImage_with_cong) simp_all
  from a b c d e show ?thesis
    unfolding analyzeImage_def analyzeImage_part001_def by blast
qed

theorem C3_witness:
  "shouldBlurFace 0.7
      \<lparr>blurFaces = False, blurBodies = False, blurMen = True, blurWomen = False, blurIntensity = 25\<rparr>
      \<lparr>gender = ''male'', genderProbability = 0.9,
       detection_box = \<lparr>box_x = 10, box_y = 20, box_width = 30, box_height = 40\<rparr>\<rparr>
   \<and> \<not> shouldBlurFace 0.7
      \<lparr>blurFaces = False, blurBodies = False, blurMen = True, blurWomen = False, blurIntensity = 25\<rparr>
      \<lparr>gender = ''male'', genderProbability = 0.5,
       detection_box = \<lparr>box_x = 10, box_y = 20, box_width = 30, box_height = 40\<rparr>\<rparr>
   \<and> (\<exists>res. analyzeImage \<lparr>isLoaded = True, bodyModel = True, faceModel = True\<rparr>
      \<lparr>blurFaces = False, blurBodies = False, blurMen = True, blurWomen = False, blurIntensity = 25\<rparr>
      \<lparr>withAgeAndGender = Inr [\<lparr>gender = ''male'', genderProbability = 0.9,
          detection_box = \<lparr>box_x = 10, box_y = 20, box_width = 30, box_height = 40\<rparr>\<rparr>],
       detectAllFaces = Inr [], segmentPerson = Inl DetectorError, estimateFaces = Inr []\<rparr> = Inr res
      \<and> faces res = [\<lparr>topLeft = (10, 20), bottomRight = (40, 60)\<rparr>])
   \<and> analyzeImage \<lparr>isLoaded = True, bodyModel = True, faceModel = True\<rparr>
      \<lparr>blurFaces = False, blurBodies = False, blurMen = True, blurWomen = False,
         blurIntensity = 25, genderConfidenceThreshold = 0.4, bodyCoverageThreshold = 0.005\<rparr>
      \<lparr>withAgeAndGender = Inr [\<lparr>gender = ''male'', genderProbability = 0.9,
          detection_box = \<lparr>box_x = 10, box_y = 20, box_width = 30, box_height = 40\<rparr>\<rparr>],
       detectAllFaces = Inr [], segmentPerson = Inl DetectorError, estimateFaces = Inr []\<rparr>
     = analyzeImage \<lparr>isLoaded = True, bodyModel = True, faceModel = True\<rparr>
      \<lparr>blurFaces = False, blurBodies = False, blurMen = True, blurWomen = False,
         blurIntensity = 25, genderConfidenceThreshold = 0.7, bodyCoverageThreshold = 0.005\<rparr>
      \<lparr>withAgeAndGender = Inr [\<lparr>gender = ''male'', genderProbability = 0.9,
          detection_box = \<lparr>box_x = 10, box_y = 20, box_width = 30, box_height = 40\<rparr>\<rparr>],
       detectAllFaces = Inr [], segmentPerson = Inl DetectorError, estimateFaces = Inr []\<rparr>"
  using C3_face_policy [where thr = "0.7"
      and s = "\<lparr>blurFaces = False, blurBodies = False, blurMen = True, blurWomen = False, blurIntensity = 25\<rparr>"
      and d = "\<lparr>gender = ''male'', genderProbability = 0.9,
       detection_box = \<lparr>box_x = 10, box_y = 20, box_width = 30, box_height = 40\<rparr>\<rparr>"
      and det = "\<lparr>isLoaded = True, bodyModel = True, faceModel = True\<rparr>"
      and ext = "\<lparr>withAgeAndGender = Inr [\<lparr>gender = ''male'', genderProbability = 0.9,
          detection_box = \<lparr>box_x = 10, box_y = 20, box_width = 30, box_height = 40\<rparr>\<rparr>],
       detectAllFaces = Inr [], segmentPerson = Inl DetectorError, estimateFaces = Inr []\<rparr>"
      and ds = "[\<lparr>gender = ''male'', genderProbability = 0.9,
          detection_box = \<lparr>box_x = 10, box_y = 20, box_width = 30, box_height = 40\<rparr>\<rparr>]"
      and ps = "\<lparr>blurFaces = False, blurBodies = False, blurMen = True, blurWomen = False,
         blurIntensity = 25, genderConfidenceThreshold = 0.7, bodyCoverageThreshold = 0.005\<rparr>"
      and t = "0.4"]
    C3_face_policy [where thr = "0.7"
      and s = "\<lparr>blurFaces = False, blurBodies = False, blurMen = True, blurWomen = False, blurIntensity = 25\<rparr>"
      and d = "\<lparr>gender = ''male'', genderProbability = 0.5,
       detection_box = \<lparr>box_x = 10, box_y = 20, box_width = 30, box_height = 40\<rparr>\<rparr>"
      and det = "\<lparr>isLoaded = False, bodyModel = True, faceModel = True\<rparr>"
      and ps = "\<lparr>blurFaces = False, blurBodies = False, blurMen = True, blurWomen = False,
         blurIntensity = 25, genderConfidenceThreshold = 0.7, bodyCoverageThreshold = 0.005\<rparr>"
      and t = "0.4"]
  by (auto simp: toFace_def effectiveGender_def)

text \<open>
  Claim C3 as stated fails when the threshold is read as the setting
  \<^verbatim>\<open>genderConfidenceThreshold\<close>. With that setting at 0.4 and only \<^verbatim>\<open>blurMen\<close> set, a
  male face of confidence 0.5 is at or above the threshold of the settings, so its
  effective gender by the claim is male and the claim flags it; \<^verbatim>\<open>analyzeImage\<close> compares
  with 0.7 (0.6 in \<^verbatim>\<open>part_001\<close>) and flags no face.
\<close>

theorem C3_counterexample:
  "genderConfidenceThreshold
      \<lparr>blurFaces = False, blurBodies = False, blurMen = True, blurWomen = False, blurIntensity = 25,
       genderConfidenceThreshold = 0.4, bodyCoverageThreshold = 0.005\<rparr>
     \<le> genderProbability \<lparr>gender = ''male'', genderProbability = 0.5,
          detection_box = \<lparr>box_x = 10, box_y = 20, box_width = 30, box_height = 40\<rparr>\<rparr>
   \<and> analyzeImage \<lparr>isLoaded = True, bodyModel = True, faceModel = True\<rparr>
      \<lparr>blurFaces = False, blurBodies = False, blurMen = True, blurWomen = False, blurIntensity = 25,
       genderConfidenceThreshold = 0.4, bodyCoverageThreshold = 0.005\<rparr>
      \<lparr>withAgeAndGender = Inr [\<lparr>gender = ''male'', genderProbability = 0.5,
          detection_box = \<lparr>box_x = 10, box_y = 20, box_width = 30, box_height = 40\<rparr>\<rparr>],
       detectAllFaces = Inr [\<lparr>box_x = 10, box_y = 20, box_width = 30, box_height = 40\<rparr>],
       segmentPerson = Inl DetectorError, estimateFaces = Inr []\<rparr>
     = Inr \<lparr>faces = [], bodySegmentation = None, shouldBlur = False, isFallback = False\<rparr>
   \<and> analyzeImage_part001 \<lparr>isLoaded = True, bodyModel = True, faceModel = True\<rparr>
      \<lparr>blurFaces = False, blurBodies = False, blurMen = True, blurWomen = False, blurIntensity = 25,
       genderConfidenceThreshold = 0.4, bodyCoverageThreshold = 0.005\<rparr>
      \<lparr>withAgeAndGender = Inr [\<lparr>gender = ''male'', genderProbability = 0.5,
          detection_box = \<lparr>box_x = 10, box_y = 20, box_width = 30, box_height = 40\<rparr>\<rparr>],
       detectAllFaces = Inr [\<lparr>box_x = 10, box_y = 20, box_width = 30, box_height = 40\<rparr>],
       segmentPerson = Inl DetectorError, estimateFaces = Inr []\<rparr>
     = Inr \<lparr>faces = [], bodySegmentation = None, shouldBlur = False, isFallback = False\<rparr>"
  by (simp add: analyzeImage_def analyzeImage_part001_def analyzeImage_with_def
      analyzeImage_try_def detectFacesStep_def bodyStep_def shouldBlurStep_def and_then_def
      initialResults_def shouldBlurFace_def effectiveGender_def hasPersonInSegmentation_def
      Let_def)

subsection \<open>The body ladder\<close>

text \<open>
  The ladder as it is written. With \<^verbatim>\<open>blurBodies\<close> set, the body mask is requested if
  and only if a face was flagged or the second, gender-free detector call
  (\<^verbatim>\<open>detectAllFaces\<close> at input size 224) finds no face; when that call finds a face and
  none was flagged, no mask is stored and nothing is blurred. The faces that were judged
  are those of the first call, and the ladder does not ask whether there were any.
\<close>

lemma body_ladder_as_written:
  "(detectAllFaces ext = Inr allFaces \<longrightarrow>
      runBodyPix ext res0 = Inr (faces res0 \<noteq> [] \<or> allFaces = []))
   \<and> (isLoaded det \<and> blurBodies s \<and> withAgeAndGender ext = Inr ds
        \<and> detectAllFaces ext = Inr allFaces \<longrightarrow>
      (\<exists>res. analyzeImage det s ext = Inr res
         \<and> faces res = map (toFace \<circ> detection_box) (filter (shouldBlurFace 0.7 s) ds)
         \<and> bodySegmentation res
             = (if faces res \<noteq> [] \<or> allFaces = [] then segmentBody det ext else None)
         \<and> (faces res = [] \<and> allFaces \<noteq> [] \<longrightarrow> bodySegmentation res = None \<and> \<not> shouldBlur res))
    \<and> (\<exists>res. analyzeImage_part001 det s ext = Inr res
         \<and> faces res = map (toFace \<circ> detection_box) (filter (shouldBlurFace 0.6 s) ds)
         \<and> bodySegmentation res
             = (if faces res \<noteq> [] \<or> allFaces = [] then segmentBody det ext else None)
         \<and> (faces res = [] \<and> allFaces \<noteq> [] \<longrightarrow> bodySegmentation res = None \<and> \<not> shouldBlur res)))"
proof -
  have a: "detectAllFaces ext = Inr allFaces \<longrightarrow>
      runBodyPix ext res0 = Inr (faces res0 \<noteq> [] \<or> allFaces = [])"
    by (simp add: runBodyPix_ok)
  have b: "\<exists>res. analyzeImage_with thr det s ext = Inr res
         \<and> faces res = map (toFace \<circ> detection_box) (filter (shouldBlurFace thr s) ds)
         \<and> bodySegmentation res
             = (if faces res \<noteq> [] \<or> allFaces = [] then segmentBody det ext else None)
         \<and> (faces res = [] \<and> allFaces \<noteq> [] \<longrightarrow> bodySegmentation res = None \<and> \<not> shouldBlur res)"
    if h: "isLoaded det \<and> blurBodies s \<and> withAgeAndGender ext = Inr ds
        \<and> detectAllFaces ext = Inr allFaces" for thr
  proof -
    from h obtain res where r: "analyzeImage_with thr det s ext = Inr res"
      "faces res = map (toFace \<circ> detection_box) (filter (shouldBlurFace thr s) ds)"
      "bodySegmentation res
          = (if faces res \<noteq> [] \<or> allFaces = [] then segmentBody det ext else None)"
      "shouldBlur res \<longleftrightarrow> faces res \<noteq> [] \<or> hasPersonInSegmentation (bodySegmentation res)"
      using analyzeImage_with_body [of det s ext ds allFaces thr] by blast
    have "faces res = [] \<and> allFaces \<noteq> [] \<longrightarrow> bodySegmentation res = None \<and> \<not> shouldBlur res"
      using r(3,4) by (simp add: hasPersonInSegmentation_def)
    with r show ?thesis by blast
  qed
  show ?thesis
    unfolding analyzeImage_def analyzeImage_part001_def
    using a b by blast
qed

text \<open>
  So when the two calls disagree, the first finding faces of which none is flagged and
  the second finding none, the mask is requested.
\<close>

lemma body_ladder_second_call:
  assumes "isLoaded det" "blurBodies s" "withAgeAndGender ext = Inr ds"
    "filter (shouldBlurFace thr s) ds = []" "detectAllFaces ext = Inr []"
  shows "\<exists>res. analyzeImage_with thr det s ext = Inr res \<and> faces res = []
           \<and> bodySegmentation res = segmentBody det ext
           \<and> (shouldBlur res \<longleftrightarrow> hasPersonInSegmentation (segmentBody det ext))"
  using analyzeImage_with_body [of det s ext ds "[]" thr] assms by auto

text \<open>
  Where the two calls agree the ladder does what its comments say: a safe face seen by
  both calls leaves the body alone, and a frame without faces has its mask requested.
\<close>

lemma body_ladder_agreeing_calls:
  "analyzeImage \<lparr>isLoaded = True, bodyModel = True, faceModel = True\<rparr>
      \<lparr>blurFaces = False, blurBodies = True, blurMen = True, blurWomen = False, blurIntensity = 25\<rparr>
      \<lparr>withAgeAndGender = Inr [\<lparr>gender = ''female'', genderProbability = 0.9,
          detection_box = \<lparr>box_x = 10, box_y = 20, box_width = 30, box_height = 40\<rparr>\<rparr>],
       detectAllFaces = Inr [\<lparr>box_x = 10, box_y = 20, box_width = 30, box_height = 40\<rparr>],
       segmentPerson = Inr \<lparr>seg_data = Some [1, 1, 0, 0], seg_width = 2, seg_height = 2\<rparr>,
       estimateFaces = Inr []\<rparr>
     = Inr \<lparr>faces = [], bodySegmentation = None, shouldBlur = False, isFallback = False\<rparr>
   \<and> analyzeImage \<lparr>isLoaded = True, bodyModel = True, faceModel = True\<rparr>
      \<lparr>blurFaces = False, blurBodies = True, blurMen = True, blurWomen = False, blurIntensity = 25\<rparr>
      \<lparr>withAgeAndGender = Inr [], detectAllFaces = Inr [],
       segmentPerson = Inr \<lparr>seg_data = Some [1, 1, 0, 0], seg_width = 2, seg_height = 2\<rparr>,
       estimateFaces = Inr []\<rparr>
     = Inr \<lparr>faces = [],
            bodySegmentation = Some \<lparr>seg_data = Some [1, 1, 0, 0], seg_width = 2, seg_height = 2\<rparr>,
            shouldBlur = True, isFallback = False\<rparr>"
  by (simp add: analyzeImage_def analyzeImage_with_def
      analyzeImage_try_def detectFacesStep_def bodyStep_def runBodyPix_def shouldBlurStep_def
      and_then_def initialResults_def shouldBlurFace_def effectiveGender_def segmentBody_def
      hasPersonInSegmentation_def personPixelCount_def Let_def)

text \<open>
  Claim C4, at a failing input. Only \<^verbatim>\<open>blurMen\<close> and \<^verbatim>\<open>blurBodies\<close> are set. The
  gender call finds one face, female at confidence 0.9, which is judged safe and not
  flagged; the second call, at input size 224, finds no face; the mask covers half of the
  frame. A face was detected and every detected face was judged safe, so by the claim (and
  by the comments of the ladder) the body is left alone. \<^verbatim>\<open>analyzeImage\<close> stores the
  mask and answers \<^verbatim>\<open>shouldBlur = true\<close>, in \<^verbatim>\<open>part_000\<close> and in \<^verbatim>\<open>part_001\<close>.
\<close>

theorem C4_body_ladder_diverges:
  "\<not> shouldBlurFace 0.7
      \<lparr>blurFaces = False, blurBodies = True, blurMen = True, blurWomen = False, blurIntensity = 25\<rparr>
      \<lparr>gender = ''female'', genderProbability = 0.9,
       detection_box = \<lparr>box_x = 10, box_y = 20, box_width = 30, box_height = 40\<rparr>\<rparr>
   \<and> analyzeImage \<lparr>isLoaded = True, bodyModel = True, faceModel = True\<rparr>
      \<lparr>blurFaces = False, blurBodies = True, blurMen = True, blurWomen = False, blurIntensity = 25\<rparr>
      \<lparr>withAgeAndGender = Inr [\<lparr>gender = ''female'', genderProbability = 0.9,
          detection_box = \<lparr>box_x = 10, box_y = 20, box_width = 30, box_height = 40\<rparr>\<rparr>],
       detectAllFaces = Inr [],
       segmentPerson = Inr \<lparr>seg_data = Some [1, 1, 0, 0], seg_width = 2, seg_height = 2\<rparr>,
       estimateFaces = Inr []\<rparr>
     = Inr \<lparr>faces = [],
            bodySegmentation = Some \<lparr>seg_data = Some [1, 1, 0, 0], seg_width = 2, seg_height = 2\<rparr>,
            shouldBlur = True, isFallback = False\<rparr>
   \<and> analyzeImage_part001 \<lparr>isLoaded = True, bodyModel = True, faceModel = True\<rparr>
      \<lparr>blurFaces = False, blurBodies = True, blurMen = True, blurWomen = False, blurIntensity = 25\<rparr>
      \<lparr>withAgeAndGender = Inr [\<lparr>gender = ''female'', genderProbability = 0.9,
          detection_box = \<lparr>box_x = 10, box_y = 20, box_width = 30, box_height = 40\<rparr>\<rparr>],
       detectAllFaces = Inr [],
       segmentPerson = Inr \<lparr>seg_data = Some [1, 1, 0, 0], seg_width = 2, seg_height = 2\<rparr>,
       estimateFaces = Inr []\<rparr>
     = Inr \<lparr>faces = [],
            bodySegmentation = Some \<lparr>seg_data = Some [1, 1, 0, 0], seg_width = 2, seg_height = 2\<rparr>,
            shouldBlur = True, isFallback = False\<rparr>"
  by (simp add: analyzeImage_def analyzeImage_part001_def analyzeImage_with_def
      analyzeImage_try_def detectFacesStep_def bodyStep_def runBodyPix_def shouldBlurStep_def
      and_then_def initialResults_def shouldBlurFace_def effectiveGender_def segmentBody_def
      hasPersonInSegmentation_def personPixelCount_def Let_def)

subsection \<open>A detector call that throws\<close>

text \<open>
  Claim C6, as amended. With the models loaded, \<^verbatim>\<open>analyzeImage\<close> always returns a
  result (no exception leaves it), and that result never takes the fallback path:
  \<^verbatim>\<open>isFallback\<close> is false. A face-detector call that throws leaves
  \<^verbatim>\<open>shouldBlur = false\<close> with no faces and no mask in \<^verbatim>\<open>part_000\<close> and
  \<^verbatim>\<open>part_001\<close>; in \<^verbatim>\<open>part_002\<close> it counts as an empty face list; a segmentation
  call that throws counts as an absent mask.
\<close>

theorem C6_detector_exception:
  "isLoaded det \<Longrightarrow>
     (\<exists>res. analyzeImage det s ext = Inr res \<and> \<not> isFallback res
        \<and> ((blurFaces s \<or> blurMen s \<or> blurWomen s) \<and> withAgeAndGender ext = Inl e \<longrightarrow>
             res = \<lparr>faces = [], bodySegmentation = None, shouldBlur = False, isFallback = False\<rparr>)
        \<and> (blurBodies s \<and> detectAllFaces ext = Inl e \<and> faces res = [] \<longrightarrow>
             res = \<lparr>faces = [], bodySegmentation = None, shouldBlur = False, isFallback = False\<rparr>))
   \<and> (\<exists>res. analyzeImage_part001 det s ext = Inr res \<and> \<not> isFallback res
        \<and> ((blurFaces s \<or> blurMen s \<or> blurWomen s) \<and> withAgeAndGender ext = Inl e \<longrightarrow>
             res = \<lparr>faces = [], bodySegmentation = None, shouldBlur = False, isFallback = False\<rparr>)
        \<and> (blurBodies s \<and> detectAllFaces ext = Inl e \<and> faces res = [] \<longrightarrow>
             res = \<lparr>faces = [], bodySegmentation = None, shouldBlur = False, isFallback = False\<rparr>))
   \<and> (\<exists>res. analyzeImage_part002 det s ext = Inr res \<and> \<not> isFallback res)
   \<and> (segmentPerson ext = Inl e \<longrightarrow> segmentBody det ext = None)
   \<and> (estimateFaces ext = Inl e \<longrightarrow> detectFaces det ext = [])"
proof -
  assume l: "isLoaded det"
  have a: "\<exists>res. analyzeImage_with thr det s ext = Inr res \<and> \<not> isFallback res
        \<and> ((blurFaces s \<or> blurMen s \<or> blurWomen s) \<and> withAgeAndGender ext = Inl e \<longrightarrow>
             res = \<lparr>faces = [], bodySegmentation = None, shouldBlur = False, isFallback = False\<rparr>)
        \<and> (blurBodies s \<and> detectAllFaces ext = Inl e \<and> faces res = [] \<longrightarrow>
             res = \<lparr>faces = [], bodySegmentation = None, shouldBlur = False, isFallback = False\<rparr>)"
    for thr
  proof -
    obtain res where r: "analyzeImage_with thr det s ext = Inr res" "\<not> isFallback res"
      using analyzeImage_with_total [of thr det s ext] l by auto
    have "(blurFaces s \<or> blurMen s \<or> blurWomen s) \<and> withAgeAndGender ext = Inl e \<longrightarrow>
             res = \<lparr>faces = [], bodySegmentation = None, shouldBlur = False, isFallback = False\<rparr>"
      using analyzeImage_with_face_throw [of det s ext e thr] l r(1) by auto
    moreover have "blurBodies s \<and> detectAllFaces ext = Inl e \<and> faces res = [] \<longrightarrow>
             res = \<lparr>faces = [], bodySegmentation = None, shouldBlur = False, isFallback = False\<rparr>"
      using analyzeImage_with_second_throw [of det s ext e thr res] l r(1) by blast
    ultimately show ?thesis using r by blast
  qed
  have b: "\<exists>res. analyzeImage_part002 det s ext = Inr res \<and> \<not> isFallback res"
    using analyzeImage_part002_total l by blast
  have c: "segmentPerson ext = Inl e \<longrightarrow> segmentBody det ext = None"
    by (simp add: segmentBody_def)
  have d: "estimateFaces ext = Inl e \<longrightarrow> detectFaces det ext = []"
    by (simp add: detectFaces_def)
  show ?thesis
    unfolding analyzeImage_def analyzeImage_part001_def
    using a [of "0.7"] a [of "0.6"] b c d by blast
qed

theorem C6_witness:
  "isLoaded \<lparr>isLoaded = True, bodyModel = True, faceModel = True\<rparr>
   \<and> analyzeImage_part001 \<lparr>isLoaded = True, bodyModel = True, faceModel = True\<rparr>
     \<lparr>blurFaces = True, blurBodies = True, blurMen = True, blurWomen = True, blurIntensity = 25\<rparr>
     \<lparr>withAgeAndGender = Inl DetectorError, detectAllFaces = Inr [],
      segmentPerson = Inl DetectorError, estimateFaces = Inl DetectorError\<rparr>
   = Inr \<lparr>faces = [], bodySegmentation = None, shouldBlur = False, isFallback = False\<rparr>
   \<and> segmentBody \<lparr>isLoaded = True, bodyModel = True, faceModel = True\<rparr>
     \<lparr>withAgeAndGender = Inl DetectorError, detectAllFaces = Inr [],
      segmentPerson = Inl DetectorError, estimateFaces = Inl DetectorError\<rparr> = None"
  using C6_detector_exception [where det = "\<lparr>isLoaded = True, bodyModel = True, faceModel = True\<rparr>"
     and s = "\<lparr>blurFaces = True, blurBodies = True, blurMen = True, blurWomen = True, blurIntensity = 25\<rparr>"
     and ext = "\<lparr>withAgeAndGender = Inl DetectorError, detectAllFaces = Inr [],
      segmentPerson = Inl DetectorError, estimateFaces = Inl DetectorError\<rparr>" and e = DetectorError]
  by auto

text \<open>
  Claim C6 as stated fails: with every detector call throwing, both \<^verbatim>\<open>part_000\<close> and
  \<^verbatim>\<open>part_002\<close> answer \<^verbatim>\<open>isFallback = false\<close> and \<^verbatim>\<open>shouldBlur = false\<close>.
\<close>

theorem C6_counterexample:
  "analyzeImage \<lparr>isLoaded = True, bodyModel = True, faceModel = True\<rparr>
     \<lparr>blurFaces = True, blurBodies = True, blurMen = True, blurWomen = True, blurIntensity = 25\<rparr>
     \<lparr>withAgeAndGender = Inl DetectorError, detectAllFaces = Inl DetectorError,
      segmentPerson = Inl DetectorError, estimateFaces = Inl DetectorError\<rparr>
   = Inr \<lparr>faces = [], bodySegmentation = None, shouldBlur = False, isFallback = False\<rparr>
  \<and> analyzeImage_part002 \<lparr>isLoaded = True, bodyModel = True, faceModel = True\<rparr>
     \<lparr>blurFaces = True, blurBodies = True, blurMen = True, blurWomen = True, blurIntensity = 25\<rparr>
     \<lparr>withAgeAndGender = Inl DetectorError, detectAllFaces = Inl DetectorError,
      segmentPerson = Inl DetectorError, estimateFaces = Inl DetectorError\<rparr>
   = Inr \<lparr>faces = [], bodySegmentation = None, shouldBlur = False, isFallback = False\<rparr>"
  by (simp add: analyzeImage_def analyzeImage_with_def initialResults_def analyzeImage_try_def
      detectFacesStep_def and_then_def analyzeImage_part002_def analyzeImage_try_part002_def
      detectFaces_def segmentBody_def)

subsection \<open>The coverage test\<close>

text \<open>
  Claim C10. \<^verbatim>\<open>hasPersonInSegmentation\<close> is false for a null segmentation and for one
  without data; otherwise it is true exactly when the number of strictly positive entries
  exceeds 0.005 times the length. No setting enters: \<^verbatim>\<open>analyzeImage\<close> gives the same
  answer for any two settings objects that agree on the four policy flags, whatever else
  (such as a \<^verbatim>\<open>bodyCoverageThreshold\<close>) they carry.
\<close>

theorem C10_coverage_test:
  fixes s :: "'a settings_scheme" and s' :: "'b settings_scheme"
  shows "hasPersonInSegmentation None = False
   \<and> hasPersonInSegmentation (Some (seg\<lparr>seg_data := None\<rparr>)) = False
   \<and> (hasPersonInSegmentation (Some (seg\<lparr>seg_data := Some xs\<rparr>)) \<longleftrightarrow>
        real (length (filter (\<lambda>v. 0 < v) xs)) > 0.005 * real (length xs))
   \<and> (blurFaces s = blurFaces s' \<and> blurMen s = blurMen s' \<and> blurWomen s = blurWomen s'
        \<and> blurBodies s = blurBodies s' \<longrightarrow>
      analyzeImage det s ext = analyzeImage det s' ext
      \<and> analyzeImage_part001 det s ext = analyzeImage_part001 det s' ext)"
proof -
  have "blurFaces s = blurFaces s' \<and> blurMen s = blurMen s' \<and> blurWomen s = blurWomen s'
        \<and> blurBodies s = blurBodies s' \<longrightarrow>
      analyzeImage det s ext = analyzeImage det s' ext
      \<and> analyzeImage_part001 det s ext = analyzeImage_part001 det s' ext"
    unfolding analyzeImage_def analyzeImage_part001_def
    using analyzeImage_with_cong [of s s'] by blast
  then show ?thesis
    by (simp add: hasPersonInSegmentation_def personPixelCount_def mult.commute)
qed

theorem C10_witness:
  "hasPersonInSegmentation (Some \<lparr>seg_data = Some [1, 0, 0, 0], seg_width = 2, seg_height = 2\<rparr>)
   \<and> \<not> hasPersonInSegmentation (Some \<lparr>seg_data = Some [0, 0, 0, 0], seg_width = 2, seg_height = 2\<rparr>)
   \<and> analyzeImage \<lparr>isLoaded = True, bodyModel = True, faceModel = True\<rparr>
       \<lparr>blurFaces = False, blurBodies = True, blurMen = False, blurWomen = False, blurIntensity = 25,
        genderConfidenceThreshold = 0.7, bodyCoverageThreshold = 0.9\<rparr>
       \<lparr>withAgeAndGender = Inr [], detectAllFaces = Inr [],
        segmentPerson = Inr \<lparr>seg_data = Some [1, 0, 0, 0], seg_width = 2, seg_height = 2\<rparr>,
        estimateFaces = Inr []\<rparr>
     = analyzeImage \<lparr>isLoaded = True, bodyModel = True, faceModel = True\<rparr>
       \<lparr>blurFaces = False, blurBodies = True, blurMen = False, blurWomen = False, blurIntensity = 25\<rparr>
       \<lparr>withAgeAndGender = Inr [], detectAllFaces = Inr [],
        segmentPerson = Inr \<lparr>seg_data = Some [1, 0, 0, 0], seg_width = 2, seg_height = 2\<rparr>,
        estimateFaces = Inr []\<rparr>"
  using C10_coverage_test [where seg = "\<lparr>seg_data = None, seg_width = 2, seg_height = 2\<rparr>"
      and xs = "[1, 0, 0, 0]" and s =
      "\<lparr>blurFaces = False, blurBodies = True, blurMen = False, blurWomen = False, blurIntensity = 25,
        genderConfidenceThreshold = 0.7, bodyCoverageThreshold = 0.9\<rparr>"
      and s' = "\<lparr>blurFaces = False, blurBodies = True, blurMen = False, blurWomen = False, blurIntensity = 25\<rparr>"
      and det = "\<lparr>isLoaded = True, bodyModel = True, faceModel = True\<rparr>"
      and ext = "\<lparr>withAgeAndGender = Inr [], detectAllFaces = Inr [],
        segmentPerson = Inr \<lparr>seg_data = Some [1, 0, 0, 0], seg_width = 2, seg_height = 2\<rparr>,
        estimateFaces = Inr []\<rparr>"]
    C10_coverage_test [where seg = "\<lparr>seg_data = None, seg_width = 2, seg_height = 2\<rparr>"
      and xs = "[0, 0, 0, 0]"
      and s = "\<lparr>blurFaces = False, blurBodies = True, blurMen = False, blurWomen = False, blurIntensity = 25\<rparr>"
      and s' = "\<lparr>blurFaces = False, blurBodies = True, blurMen = False, blurWomen = False, blurIntensity = 25\<rparr>"]
  by simp

section \<open>Properties of the blur engine\<close>

subsection \<open>\<^verbatim>\<open>stackBlur\<close> as it runs\<close>

lemma stackBlur_buffer: "snd (stackBlur pixels width height radius) = pixels"
  by (simp add: stackBlur_def Let_def)

text \<open>
  Claim C7. A radius whose floor is below 1, in particular every radius at most 0, makes
  \<^verbatim>\<open>stackBlur\<close> return normally with the buffer as it was.
\<close>

theorem C7_radius_below_one:
  "(\<lfloor>radius\<rfloor> < 1 \<longrightarrow> stackBlur pixels width height radius = (None, pixels))
   \<and> (radius \<le> 0 \<longrightarrow> stackBlur pixels width height radius = (None, pixels))"
proof -
  have "radius \<le> 0 \<Longrightarrow> \<lfloor>radius\<rfloor> < 1"
    by linarith
  then show ?thesis
    by (auto simp: stackBlur_def Let_def)
qed

theorem C7_witness:
  "\<lfloor>1 / 2 :: real\<rfloor> < 1 \<and> stackBlur [10, 20, 30, 255] 1 1 (1 / 2) = (None, [10, 20, 30, 255])
   \<and> (- 3 :: real) \<le> 0 \<and> stackBlur [10, 20, 30, 255] 1 1 (- 3) = (None, [10, 20, 30, 255])"
  using C7_radius_below_one [of "1 / 2" "[10, 20, 30, 255]" 1 1]
    C7_radius_below_one [of "- 3" "[10, 20, 30, 255]" 1 1]
  by simp

subsection \<open>The passes: alpha bytes and channels\<close>

lemma foldl_invariant:
  "P s \<Longrightarrow> (\<And>s x. P s \<Longrightarrow> P (f s x)) \<Longrightarrow> P (foldl f s xs)"
  by (induction xs arbitrary: s) auto

lemma foldl_related:
  "R s t \<Longrightarrow> (\<And>s t x. R s t \<Longrightarrow> R (f s x) (g t x)) \<Longrightarrow> R (foldl f s xs) (foldl g t xs)"
  by (induction xs arbitrary: s t) auto

lemma wr8_length [simp]: "length (wr8 a i v) = length a"
  by (simp add: wr8_def)

lemma wr8_other: "nat i \<noteq> j \<Longrightarrow> wr8 a i v ! j = a ! j"
  by (simp add: wr8_def)

lemma wr8_alpha:
  assumes "c = 0 \<or> c = 1 \<or> c = 2" "j mod 4 = 3"
  shows "wr8 a (k * 4 + c) v ! j = a ! j"
proof (cases "0 \<le> k * 4 + c")
  case True
  have "(k * 4 + c) mod 4 = c" using assms(1) by auto
  then have "int (nat (k * 4 + c)) mod 4 = c" using True by simp
  moreover have "int j mod 4 = 3" using assms(2) by presburger
  ultimately have "nat (k * 4 + c) \<noteq> j" using assms(1) by auto
  then show ?thesis by (rule wr8_other)
next
  case False
  then show ?thesis by (simp add: wr8_def)
qed

lemma hInitStep_pixels [simp]: "sb_pixels (hInitStep wm st i) = sb_pixels st"
  by (simp add: hInitStep_def Let_def)

lemma hStep_pixels [simp]: "sb_pixels (hStep radius wm dv y st x) = sb_pixels st"
  by (simp add: hStep_def Let_def)

lemma vInitStep_pixels [simp]: "sb_pixels (vInitStep width x st i) = sb_pixels st"
  by (simp add: vInitStep_def Let_def)

lemma hRow_pixels [simp]: "sb_pixels (hRow width radius wm dv st y) = sb_pixels st"
proof -
  have a: "sb_pixels (foldl (hInitStep wm) s xs) = sb_pixels s" for s xs
    by (induction xs arbitrary: s) auto
  have b: "sb_pixels (foldl (hStep radius wm dv y) s xs) = sb_pixels s" for s xs
    by (induction xs arbitrary: s) auto
  show ?thesis by (simp add: hRow_def Let_def a b)
qed

lemma vStep_alpha:
  "alpha_kept p (sb_pixels st) \<Longrightarrow> alpha_kept p (sb_pixels (vStep width radius hm dv x st y))"
  using wr8_alpha [where c = 0] wr8_alpha [where c = 1] wr8_alpha [where c = 2]
  by (simp add: vStep_def Let_def alpha_kept_def)

lemma vCol_alpha:
  assumes "alpha_kept p (sb_pixels st)"
  shows "alpha_kept p (sb_pixels (vCol width height radius hm dv st x))"
proof -
  have a: "sb_pixels (foldl (vInitStep width x) s xs) = sb_pixels s" for s xs
    by (induction xs arbitrary: s) auto
  have b: "alpha_kept p (sb_pixels (foldl (vStep width radius hm dv x) s xs))"
    if "alpha_kept p (sb_pixels s)" for s xs
    using that by (rule foldl_invariant) (rule vStep_alpha)
  show ?thesis
    unfolding vCol_def Let_def by (rule b) (simp add: a assms)
qed

lemma stackBlur_passes_alpha:
  "alpha_kept pixels (stackBlur_passes pixels width height radius)"
proof -
  have h: "sb_pixels (foldl (hRow width radius wm dv) s ys) = sb_pixels s" for s ys wm dv
    by (induction ys arbitrary: s) auto
  have v: "alpha_kept pixels (sb_pixels (foldl (vCol width height radius hm dv) s xs))"
    if "alpha_kept pixels (sb_pixels s)" for s xs hm dv
    using that by (rule foldl_invariant) (rule vCol_alpha)
  show ?thesis
    unfolding stackBlur_passes_def Let_def
    by (rule v) (simp add: h alpha_kept_def)
qed

lemma rd8_same_channel:
  assumes "same_channel c p q" "0 \<le> c" "c < 4"
  shows "rd8 p (k * 4 + c) = rd8 q (k * 4 + c)"
proof (cases "0 \<le> k * 4 + c \<and> k * 4 + c < int (length p)")
  case True
  have "int (nat (k * 4 + c)) mod 4 = c" using True assms(2,3) by simp
  moreover have "nat (k * 4 + c) < length p" using True by auto
  ultimately have "p ! nat (k * 4 + c) = q ! nat (k * 4 + c)"
    using assms(1) by (simp add: same_channel_def)
  then show ?thesis using assms(1) by (simp add: rd8_def same_channel_def)
next
  case False
  then show ?thesis using assms(1) by (auto simp: rd8_def same_channel_def)
qed

lemma rd8n_same_channel:
  assumes "same_channel c p q" "0 \<le> c" "c < 4"
  shows "rd8n p (map_option (\<lambda>v. (a + v) * 4) m) c = rd8n q (map_option (\<lambda>v. (a + v) * 4) m) c"
proof (cases m)
  case None
  then show ?thesis by (simp add: rd8n_def)
next
  case (Some v)
  then show ?thesis
    using rd8_same_channel [OF assms, of "a + v"] by (simp add: rd8n_def)
qed

lemma wr8_same_channel_hit:
  assumes "same_channel c p q"
  shows "same_channel c (wr8 p i v) (wr8 q i v)"
  using assms by (auto simp: same_channel_def wr8_def nth_list_update)

lemma wr8_same_channel_miss:
  assumes "same_channel c p q" "0 \<le> c'" "c' < 4" "c' \<noteq> c"
  shows "same_channel c (wr8 p (k * 4 + c') v) (wr8 q (k * 4 + c') w)"
proof -
  have "wr8 p (k * 4 + c') v ! j = p ! j \<and> wr8 q (k * 4 + c') w ! j = q ! j" if "int j mod 4 = c" for j
  proof (cases "0 \<le> k * 4 + c'")
    case True
    have "int (nat (k * 4 + c')) mod 4 = c'" using True assms(2,3) by simp
    then have "nat (k * 4 + c') \<noteq> j" using that assms(4) by auto
    then show ?thesis by (simp add: wr8_other)
  next
    case False
    then show ?thesis by (simp add: wr8_def)
  qed
  then show ?thesis using assms(1) by (simp add: same_channel_def)
qed

lemma hInitStep_rel:
  assumes "c = 0 \<or> c = 1 \<or> c = 2" "chan_rel c s t"
  shows "chan_rel c (hInitStep wm s i) (hInitStep wm t i)"
proof -
  have sc: "same_channel c (sb_pixels s) (sb_pixels t)" using assms(2) by (simp add: chan_rel_def)
  have r: "rd8 (sb_pixels s) (k * 4 + c) = rd8 (sb_pixels t) (k * 4 + c)" for k
    using rd8_same_channel [OF sc] assms(1) by auto
  show ?thesis
    using assms r [of "sb_yi t + min wm (max i 0)"]
    by (auto simp: chan_rel_def hInitStep_def Let_def chan_arr_def chan_sum_def)
qed

lemma hStep_rel:
  assumes "c = 0 \<or> c = 1 \<or> c = 2" "chan_rel c s t"
  shows "chan_rel c (hStep radius wm dv y s x) (hStep radius wm dv y t x)"
proof -
  have sc: "same_channel c (sb_pixels s) (sb_pixels t)" using assms(2) by (simp add: chan_rel_def)
  have r: "rd8n (sb_pixels s) (map_option (\<lambda>v. (a + v) * 4) m) c
         = rd8n (sb_pixels t) (map_option (\<lambda>v. (a + v) * 4) m) c" for a m
    using rd8n_same_channel [OF sc] assms(1) by auto
  show ?thesis
    using assms r
    by (auto simp: chan_rel_def hStep_def Let_def chan_arr_def chan_sum_def)
qed

lemma vInitStep_rel:
  assumes "c = 0 \<or> c = 1 \<or> c = 2" "chan_rel c s t"
  shows "chan_rel c (vInitStep width x s i) (vInitStep width x t i)"
  using assms
  by (auto simp: chan_rel_def vInitStep_def Let_def chan_arr_def chan_sum_def)

lemma vStep_rel:
  assumes "c = 0 \<or> c = 1 \<or> c = 2" "chan_rel c s t"
  shows "chan_rel c (vStep width radius hm dv x s y) (vStep width radius hm dv x t y)"
proof -
  have sc: "same_channel c (sb_pixels s) (sb_pixels t)" using assms(2) by (simp add: chan_rel_def)
  have m: "same_channel c (wr8 p (k * 4 + c') v) (wr8 q (k * 4 + c') w)"
    if "same_channel c p q" "c' = 0 \<or> c' = 1 \<or> c' = 2" "c' \<noteq> c" for p q k c' v w
    using wr8_same_channel_miss [OF that(1) _ _ that(3)] that(2) by auto
  have m0: "same_channel c (wr8 p (k * 4) v) (wr8 q (k * 4) w)"
    if "same_channel c p q" "0 \<noteq> c" for p q k v w
    using m [OF that(1), of 0 k v w] that(2) by simp
  note h = wr8_same_channel_hit
  show ?thesis
    using assms(1)
  proof (elim disjE)
    assume c: "c = 0"
    have "same_channel c
       (wr8 (wr8 (wr8 (sb_pixels s) (sb_yi s * 4) a) (sb_yi s * 4 + 1) b) (sb_yi s * 4 + 2) d)
       (wr8 (wr8 (wr8 (sb_pixels t) (sb_yi s * 4) a) (sb_yi s * 4 + 1) b') (sb_yi s * 4 + 2) d')"
      for a b d b' d'
      by (intro m h sc) (simp_all add: c)
    then show ?thesis using assms(2) c
      by (simp add: chan_rel_def vStep_def Let_def chan_arr_def chan_sum_def)
  next
    assume c: "c = 1"
    have "same_channel c
       (wr8 (wr8 (wr8 (sb_pixels s) (sb_yi s * 4) a) (sb_yi s * 4 + 1) b) (sb_yi s * 4 + 2) d)
       (wr8 (wr8 (wr8 (sb_pixels t) (sb_yi s * 4) a') (sb_yi s * 4 + 1) b) (sb_yi s * 4 + 2) d')"
      for a b d a' d'
      by (intro m h m0 sc) (simp_all add: c)
    then show ?thesis using assms(2) c
      by (simp add: chan_rel_def vStep_def Let_def chan_arr_def chan_sum_def)
  next
    assume c: "c = 2"
    have "same_channel c
       (wr8 (wr8 (wr8 (sb_pixels s) (sb_yi s * 4) a) (sb_yi s * 4 + 1) b) (sb_yi s * 4 + 2) d)
       (wr8 (wr8 (wr8 (sb_pixels t) (sb_yi s * 4) a') (sb_yi s * 4 + 1) b') (sb_yi s * 4 + 2) d)"
      for a b d a' b'
      by (intro m h m0 sc) (simp_all add: c)
    then show ?thesis using assms(2) c
      by (simp add: chan_rel_def vStep_def Let_def chan_arr_def chan_sum_def)
  qed
qed

lemma hRow_rel:
  assumes "c = 0 \<or> c = 1 \<or> c = 2" "chan_rel c s t"
  shows "chan_rel c (hRow width radius wm dv s y) (hRow width radius wm dv t y)"
proof -
  have 1: "chan_rel c (s\<lparr>sb_rsum := Some 0, sb_gsum := Some 0, sb_bsum := Some 0\<rparr>)
      (t\<lparr>sb_rsum := Some 0, sb_gsum := Some 0, sb_bsum := Some 0\<rparr>)"
    using assms(2) by (auto simp: chan_rel_def chan_arr_def chan_sum_def split: if_splits)
  have 2: "chan_rel c (foldl (hInitStep wm) s' xs) (foldl (hInitStep wm) t' xs)"
    if "chan_rel c s' t'" for s' t' xs
    using that by (rule foldl_related) (rule hInitStep_rel [OF assms(1)])
  have 3: "chan_rel c (foldl (hStep radius wm dv y) s' xs) (foldl (hStep radius wm dv y) t' xs)"
    if "chan_rel c s' t'" for s' t' xs
    using that by (rule foldl_related) (rule hStep_rel [OF assms(1)])
  have 4: "chan_rel c (s'\<lparr>sb_yw := sb_yw s' + width\<rparr>) (t'\<lparr>sb_yw := sb_yw t' + width\<rparr>)"
    if "chan_rel c s' t'" for s' t'
    using that by (auto simp: chan_rel_def chan_arr_def chan_sum_def split: if_splits)
  show ?thesis
    unfolding hRow_def Let_def by (intro 4 3 2 1)
qed

lemma vCol_rel:
  assumes "c = 0 \<or> c = 1 \<or> c = 2" "chan_rel c s t"
  shows "chan_rel c (vCol width height radius hm dv s x) (vCol width height radius hm dv t x)"
proof -
  have 1: "chan_rel c
      (s\<lparr>sb_rsum := Some 0, sb_gsum := Some 0, sb_bsum := Some 0, sb_yp := - radius * width\<rparr>)
      (t\<lparr>sb_rsum := Some 0, sb_gsum := Some 0, sb_bsum := Some 0, sb_yp := - radius * width\<rparr>)"
    using assms(2) by (auto simp: chan_rel_def chan_arr_def chan_sum_def split: if_splits)
  have 2: "chan_rel c (foldl (vInitStep width x) s' xs) (foldl (vInitStep width x) t' xs)"
    if "chan_rel c s' t'" for s' t' xs
    using that by (rule foldl_related) (rule vInitStep_rel [OF assms(1)])
  have 3: "chan_rel c (foldl (vStep width radius hm dv x) s' xs)
      (foldl (vStep width radius hm dv x) t' xs)"
    if "chan_rel c s' t'" for s' t' xs
    using that by (rule foldl_related) (rule vStep_rel [OF assms(1)])
  have 4: "chan_rel c (s'\<lparr>sb_yi := x\<rparr>) (t'\<lparr>sb_yi := x\<rparr>)"
    if "chan_rel c s' t'" for s' t'
    using that by (auto simp: chan_rel_def chan_arr_def chan_sum_def split: if_splits)
  show ?thesis
    unfolding vCol_def Let_def by (intro 3 4 2 1)
qed

lemma stackBlur_passes_channel:
  assumes "c = 0 \<or> c = 1 \<or> c = 2" "same_channel c p q"
  shows "same_channel c (stackBlur_passes p width height radius)
           (stackBlur_passes q width height radius)"
proof -
  have h: "chan_rel c (foldl (hRow width radius wm dv) s ys) (foldl (hRow width radius wm dv) t ys)"
    if "chan_rel c s t" for s t ys wm dv
    using that by (rule foldl_related) (rule hRow_rel [OF assms(1)])
  have v: "chan_rel c (foldl (vCol width height radius hm dv) s xs)
      (foldl (vCol width height radius hm dv) t xs)"
    if "chan_rel c s t" for s t xs hm dv
    using that by (rule foldl_related) (rule vCol_rel [OF assms(1)])
  have "chan_rel c (foldl (vCol width height radius hm dv) (foldl (hRow width radius wm dv) s ys) xs)
      (foldl (vCol width height radius hm dv) (foldl (hRow width radius wm dv) t ys) xs)"
    if "chan_rel c s t" for s t xs ys hm wm dv
    by (intro v h that)
  then show ?thesis
    unfolding stackBlur_passes_def Let_def
    using assms(2) by (auto simp: chan_rel_def chan_arr_def chan_sum_def split: if_splits)
qed

subsection \<open>The passes against the box average\<close>

text \<open>
  For a valid geometry and \<open>0 \<le> radius < height\<close> the two passes compute the box average
  of the specification: the horizontal pass keeps, at column \<open>x\<close>, the sum of the clamped
  window at \<open>x\<close>, and the vertical pass does the same down each column. The proof follows
  the loops with the invariants defined above.
\<close>

subsection \<open>Sliding a clamped window\<close>

lemma map_add_upto: "map (\<lambda>i. x + i) [a..b] = [x + a..x + b]"
proof (induction a b rule: upto.induct)
  case (1 i j)
  show ?case
  proof (cases "i \<le> j")
    case True
    then have "[x + i..x + j] = (x + i) # [x + (i + 1)..x + j]"
      by (simp add: upto_rec1 add.assoc)
    with True 1 show ?thesis by (simp add: upto_rec1 [of i j])
  next
    case False
    then show ?thesis by simp
  qed
qed

lemma windowSum_shift:
  "windowSum f n radius x = sum_list (map (\<lambda>j. f (clampIndex n j)) [x - radius..x + radius])"
proof -
  have "map (\<lambda>i. f (clampIndex n (x + i))) [- radius..radius]
      = map (\<lambda>j. f (clampIndex n j)) (map (\<lambda>i. x + i) [- radius..radius])"
    by (simp add: comp_def)
  then show ?thesis by (simp add: windowSum_def map_add_upto)
qed

lemma windowSum_slide:
  assumes "0 \<le> radius" "0 \<le> x" "x < n"
  shows "windowSum f n radius (x + 1)
       = windowSum f n radius x + f (min (x + radius + 1) (n - 1)) - f (max (x - radius) 0)"
proof -
  let ?g = "\<lambda>j. f (clampIndex n j)"
  have a: "[x - radius..x + radius + 1] = [x - radius..x + radius] @ [x + radius + 1]"
    using assms(1) upto_rec2 [of "x - radius" "x + radius + 1"] by simp
  have b: "[x - radius..x + radius + 1] = (x - radius) # [x + 1 - radius..x + 1 + radius]"
    using assms(1) upto_rec1 [of "x - radius" "x + radius + 1"] by (simp add: algebra_simps)
  have "sum_list (map ?g [x - radius..x + radius]) + ?g (x + radius + 1)
      = ?g (x - radius) + sum_list (map ?g [x + 1 - radius..x + 1 + radius])"
    using arg_cong [OF a, of "\<lambda>xs. sum_list (map ?g xs)"]
      arg_cong [OF b, of "\<lambda>xs. sum_list (map ?g xs)"] by simp
  moreover have "clampIndex n (x + radius + 1) = min (x + radius + 1) (n - 1)"
    using assms by (simp add: clampIndex_def)
  moreover have "clampIndex n (x - radius) = max (x - radius) 0"
    using assms by (simp add: clampIndex_def)
  ultimately show ?thesis
    by (simp add: windowSum_shift)
qed

lemma windowSum_0_h:
  assumes "1 \<le> n"
  shows "windowSum f n radius 0 = sum_list (map (\<lambda>i. f (min (n - 1) (max i 0))) [- radius..radius])"
proof -
  have "clampIndex n i = min (n - 1) (max i 0)" for i
    using assms by (simp add: clampIndex_def)
  then show ?thesis by (simp add: windowSum_def)
qed

lemma windowSum_0_v:
  assumes "radius < n"
  shows "windowSum f n radius 0 = sum_list (map (\<lambda>i. f (max 0 i)) [- radius..radius])"
proof -
  have "clampIndex n i = max 0 i" if "i \<in> set [- radius..radius]" for i
    using assms that by (simp add: clampIndex_def)
  then have "map (\<lambda>i. f (clampIndex n (0 + i))) [- radius..radius]
      = map (\<lambda>i. f (max 0 i)) [- radius..radius]"
    by (intro map_cong) simp_all
  then show ?thesis unfolding windowSum_def by (rule arg_cong)
qed

lemma sum_list_bounds:
  assumes "\<forall>v \<in> set xs. 0 \<le> v \<and> v \<le> (255::int)"
  shows "0 \<le> sum_list xs \<and> sum_list xs \<le> 255 * int (length xs)"
  using assms by (induction xs) (auto simp: algebra_simps)

lemma boxAverage_bounds:
  assumes "\<forall>i. 0 \<le> f i \<and> f i \<le> 255" "0 \<le> radius"
  shows "0 \<le> boxAverage f n radius x \<and> boxAverage f n radius x \<le> 255"
proof -
  let ?s = "windowSum f n radius x"
  let ?d = "2 * radius + 1"
  have "0 \<le> ?s \<and> ?s \<le> 255 * int (length (map (\<lambda>i. f (clampIndex n (x + i))) [- radius..radius]))"
    unfolding windowSum_def by (rule sum_list_bounds) (use assms(1) in auto)
  then have s: "0 \<le> ?s" "?s \<le> 255 * ?d"
    using assms(2) by simp_all
  have d: "0 < real_of_int ?d" using assms(2) by simp
  have "0 \<le> real_of_int ?s / real_of_int ?d"
    using s(1) d by simp
  then have lo: "0 \<le> round (real_of_int ?s / real_of_int ?d)"
    using round_mono [of 0 "real_of_int ?s / real_of_int ?d"] by simp
  have "real_of_int ?s \<le> 255 * real_of_int ?d"
    using s(2) by (metis of_int_le_iff of_int_mult of_int_numeral)
  then have "real_of_int ?s / real_of_int ?d \<le> 255"
    using d by (simp add: pos_divide_le_eq)
  then have hi: "round (real_of_int ?s / real_of_int ?d) \<le> 255"
    using round_mono [of "real_of_int ?s / real_of_int ?d" 255] by simp
  from lo hi show ?thesis by (simp add: boxAverage_def)
qed

lemma mathRound_eq_round: "mathRound v = round v"
  by (simp add: mathRound_def round_def)

lemma toUint8Clamp_in_range:
  assumes "0 \<le> v" "v \<le> 255"
  shows "uint (toUint8Clamp (Some v)) = v" "toUint8Clamp (Some v) = word_of_int v"
proof -
  have m: "max 0 (min 255 v) = v" using assms by simp
  show "toUint8Clamp (Some v) = word_of_int v"
    by (simp add: toUint8Clamp_def m)
  have "uint (word_of_int v :: 8 word) = v"
    using assms by (simp add: uint_word_of_int take_bit_int_eq_self)
  then show "uint (toUint8Clamp (Some v)) = v"
    by (simp add: toUint8Clamp_def m)
qed

lemma uint32_roundtrip:
  assumes "0 \<le> v" "v < 2 ^ 32"
  shows "uint (word_of_int v :: 32 word) = v"
  using assms by (simp add: uint_word_of_int take_bit_int_eq_self)

lemma uint8_bounds: "0 \<le> uint (w :: 8 word) \<and> uint w \<le> 255"
proof -
  have "uint w < 2 ^ LENGTH(8)" by (rule uint_bounded)
  then show ?thesis by simp
qed

lemma foldl_nadd_reads:
  assumes "\<forall>i \<in> set xs. 0 \<le> idx i \<and> idx i < int (length a)"
  shows "foldl (\<lambda>s i. nadd s (rd8 a (idx i))) (Some s0) xs
       = Some (s0 + sum_list (map (\<lambda>i. uint (a ! nat (idx i))) xs))"
  using assms by (induction xs arbitrary: s0) (auto simp: nadd_def rd8_def)

lemma cell_index_bound:
  assumes "0 \<le> x" "x < w" "0 \<le> y" "y < h"
  shows "0 \<le> y * w + x" "y * w + x < w * (h::int)"
proof -
  have w: "0 \<le> w" using assms by simp
  show "0 \<le> y * w + x" using assms w by simp
  have "y + 1 \<le> h" using assms by simp
  then have "(y + 1) * w \<le> h * w" using w by (rule mult_right_mono)
  then show "y * w + x < w * h" using assms by (simp add: algebra_simps)
qed

lemma cell_div_mod:
  assumes "0 \<le> x" "x < (w::int)"
  shows "(y * w + x) div w = y" "(y * w + x) mod w = x"
  using assms by simp_all

subsection \<open>Fields after the steps of the horizontal pass\<close>

lemma hInitStep_fields [simp]:
  "sb_r (hInitStep wm st i) = sb_r st" "sb_g (hInitStep wm st i) = sb_g st"
  "sb_b (hInitStep wm st i) = sb_b st" "sb_vmin (hInitStep wm st i) = sb_vmin st"
  "sb_vmax (hInitStep wm st i) = sb_vmax st" "sb_yi (hInitStep wm st i) = sb_yi st"
  "sb_yw (hInitStep wm st i) = sb_yw st" "sb_yp (hInitStep wm st i) = sb_yp st"
  by (simp_all add: hInitStep_def Let_def)

lemma hInitStep_sum:
  "c = 0 \<or> c = 1 \<or> c = 2 \<Longrightarrow>
     chan_sum c (hInitStep wm st i)
       = nadd (chan_sum c st) (rd8 (sb_pixels st) ((sb_yi st + min wm (max i 0)) * 4 + c))"
  by (auto simp: hInitStep_def Let_def chan_sum_def)

lemma chan_arr_hInitStep [simp]: "chan_arr c (hInitStep wm st i) = chan_arr c st"
  by (simp add: chan_arr_def)

lemma hInit_fold_fields [simp]:
  "sb_pixels (foldl (hInitStep wm) st xs) = sb_pixels st"
  "sb_r (foldl (hInitStep wm) st xs) = sb_r st" "sb_g (foldl (hInitStep wm) st xs) = sb_g st"
  "sb_b (foldl (hInitStep wm) st xs) = sb_b st" "sb_vmin (foldl (hInitStep wm) st xs) = sb_vmin st"
  "sb_vmax (foldl (hInitStep wm) st xs) = sb_vmax st" "sb_yi (foldl (hInitStep wm) st xs) = sb_yi st"
  "sb_yw (foldl (hInitStep wm) st xs) = sb_yw st" "sb_yp (foldl (hInitStep wm) st xs) = sb_yp st"
  by (induction xs arbitrary: st; simp)+

lemma hInit_fold_sum:
  assumes "c = 0 \<or> c = 1 \<or> c = 2"
  shows "chan_sum c (foldl (hInitStep wm) st xs)
       = foldl (\<lambda>s i. nadd s (rd8 (sb_pixels st) ((sb_yi st + min wm (max i 0)) * 4 + c)))
           (chan_sum c st) xs"
  by (induction xs arbitrary: st) (simp_all add: hInitStep_sum [OF assms])

lemma hStep_fields [simp]:
  "sb_yi (hStep radius wm dv y st x) = sb_yi st + 1"
  "sb_yw (hStep radius wm dv y st x) = sb_yw st"
  "sb_yp (hStep radius wm dv y st x) = sb_yp st"
  by (simp_all add: hStep_def Let_def)

lemma hStep_vmin:
  "sb_vmin (hStep radius wm dv y st x)
     = (if y = 0 then wr32 (sb_vmin st) x (min (x + radius + 1) wm) else sb_vmin st)"
  "sb_vmax (hStep radius wm dv y st x)
     = (if y = 0 then wr32 (sb_vmax st) x (max (x - radius) 0) else sb_vmax st)"
  by (simp_all add: hStep_def Let_def)

lemma hStep_arr:
  "c = 0 \<or> c = 1 \<or> c = 2 \<Longrightarrow>
     chan_arr c (hStep radius wm dv y st x)
       = wr8 (chan_arr c st) (sb_yi st) (mathRoundDiv (chan_sum c st) dv)"
  by (auto simp: hStep_def Let_def chan_arr_def chan_sum_def)

lemma hStep_sum:
  "c = 0 \<or> c = 1 \<or> c = 2 \<Longrightarrow>
     chan_sum c (hStep radius wm dv y st x)
       = nadd (chan_sum c st)
           (nsub (rd8n (sb_pixels st)
                    (map_option (\<lambda>v. (sb_yw st + v) * 4)
                       (rd32 (sb_vmin (hStep radius wm dv y st x)) x)) c)
                 (rd8n (sb_pixels st)
                    (map_option (\<lambda>v. (sb_yw st + v) * 4)
                       (rd32 (sb_vmax (hStep radius wm dv y st x)) x)) c))"
  by (auto simp: hStep_def Let_def chan_sum_def)

lemma wr32_length [simp]: "length (wr32 a i v) = length a"
  by (simp add: wr32_def)

lemma channelAt_bounds: "0 \<le> channelAt pixels width c x y \<and> channelAt pixels width c x y \<le> 255"
  unfolding channelAt_def by (rule uint8_bounds)

lemma naive_horizontal_bounds:
  "0 \<le> radius \<Longrightarrow> 0 \<le> naive_horizontal pixels width radius c x y
      \<and> naive_horizontal pixels width radius c x y \<le> 255"
  unfolding naive_horizontal_def
  by (rule boxAverage_bounds) (simp_all add: channelAt_bounds)

lemma rd8_pixel:
  assumes "valid_geometry pixels width height radius" "0 \<le> x" "x < width" "0 \<le> y" "y < height"
    "c = 0 \<or> c = 1 \<or> c = 2"
  shows "rd8 pixels ((y * width + x) * 4 + c) = Some (channelAt pixels width c x y)"
proof -
  have "0 \<le> y * width + x" "y * width + x < width * height"
    using cell_index_bound [OF assms(2-5)] by simp_all
  then have "0 \<le> (y * width + x) * 4 + c \<and> (y * width + x) * 4 + c < int (length pixels)"
    using assms(1,6) by (auto simp: valid_geometry_def)
  then show ?thesis by (simp add: rd8_def channelAt_def)
qed

lemma width_small:
  assumes "valid_geometry pixels width height radius"
  shows "width < 2 ^ 32" "height < 2 ^ 32"
proof -
  have g: "1 \<le> width" "1 \<le> height" "width * height < 2 ^ 32"
    using assms by (simp_all add: valid_geometry_def)
  have "width * 1 \<le> width * height" using g(1,2) by (intro mult_left_mono) simp_all
  then show "width < 2 ^ 32" using g(3) by simp
  have "1 * height \<le> width * height" using g(1,2) by (intro mult_right_mono) simp_all
  then show "height < 2 ^ 32" using g(3) by simp
qed

lemma hStep_inv:
  assumes g: "valid_geometry pixels width height radius"
    and y: "0 \<le> y" "y < height" and x: "0 \<le> x" "x < width"
    and inv: "hrow_inv pixels width height radius y x st"
    and dv: "dv = 2 * radius + 1"
  shows "hrow_inv pixels width height radius y (x + 1) (hStep radius (width - 1) dv y st x)"
proof -
  let ?k = "y * width + x"
  let ?st' = "hStep radius (width - 1) dv y st x"
  let ?S = "\<lambda>c x. windowSum (\<lambda>x'. channelAt pixels width c x' y) width radius x"
  have gw: "1 \<le> width" "1 \<le> height" "0 \<le> radius" "int (length pixels) = 4 * width * height"
    using g by (simp_all add: valid_geometry_def)
  have hi: "hinv pixels width height radius ?k st" and yw: "sb_yw st = y * width"
    and sums: "\<And>c. c = 0 \<or> c = 1 \<or> c = 2 \<Longrightarrow> chan_sum c st = Some (?S c x)"
    using inv by (auto simp: hrow_inv_def)
  have px: "sb_pixels st = pixels" and yi: "sb_yi st = ?k"
    and len: "\<And>c. c = 0 \<or> c = 1 \<or> c = 2 \<Longrightarrow> length (chan_arr c st) = nat (width * height)"
    and lv: "length (sb_vmin st) = nat (max width height)"
      "length (sb_vmax st) = nat (max width height)"
    and ent: "\<And>c j. c = 0 \<or> c = 1 \<or> c = 2 \<Longrightarrow> 0 \<le> j \<Longrightarrow> j < ?k \<Longrightarrow>
        uint (chan_arr c st ! nat j) = Hval pixels width radius c j"
    and vm: "\<And>x'. 0 \<le> x' \<Longrightarrow> x' < min ?k width \<Longrightarrow>
        uint (sb_vmin st ! nat x') = min (x' + radius + 1) (width - 1)
        \<and> uint (sb_vmax st ! nat x') = max (x' - radius) 0"
    using hi by (auto simp: hinv_def)
  have kb: "0 \<le> ?k" "?k < width * height"
    using cell_index_bound [OF x y] by simp_all
  have ws: "width < 2 ^ 32" using width_small [OF g] by simp
  have xin: "0 \<le> x \<and> x < int (length (sb_vmin st))" "0 \<le> x \<and> x < int (length (sb_vmax st))"
    using x lv by auto
  have nx: "nat x < length (sb_vmin st)" "nat x < length (sb_vmax st)"
    using xin by auto
  \<comment> \<open>the side tables after the step\<close>
  have vm': "uint (sb_vmin ?st' ! nat x') = min (x' + radius + 1) (width - 1)
        \<and> uint (sb_vmax ?st' ! nat x') = max (x' - radius) 0"
    if x': "0 \<le> x'" "x' < min (?k + 1) width" for x'
  proof (cases "y = 0")
    case True
    have r1: "uint (word_of_int (min (x + radius + 1) (width - 1)) :: 32 word)
        = min (x + radius + 1) (width - 1)"
      using x gw ws by (intro uint32_roundtrip) auto
    have r2: "uint (word_of_int (max (x - radius) 0) :: 32 word) = max (x - radius) 0"
      using x gw ws by (intro uint32_roundtrip) auto
    show ?thesis
    proof (cases "x' = x")
      case True
      then show ?thesis using \<open>y = 0\<close> xin nx r1 r2 by (simp add: hStep_vmin wr32_def)
    next
      case False
      then have "x' < min ?k width" "nat x \<noteq> nat x'" using x' x \<open>y = 0\<close> by auto
      then show ?thesis using \<open>y = 0\<close> vm [OF x'(1)] by (simp add: hStep_vmin wr32_def)
    qed
  next
    case False
    then have "1 \<le> y" using y by simp
    then have "1 * width \<le> y * width" using gw by (intro mult_right_mono) simp_all
    then have yw1: "width \<le> y * width" by simp
    have xw: "x' < width" using x'(2) by simp
    then have "x' < ?k" using yw1 x(1) by linarith
    then have "x' < min ?k width" using xw by simp
    then show ?thesis using False vm [OF x'(1)] by (simp add: hStep_vmin)
  qed
  have lv': "length (sb_vmin ?st') = nat (max width height)"
    "length (sb_vmax ?st') = nat (max width height)"
    using lv by (simp_all add: hStep_vmin)
  \<comment> \<open>the channel arrays after the step\<close>
  have avg: "uint (toUint8Clamp (mathRoundDiv (Some (?S c x)) dv))
      = Hval pixels width radius c ?k" for c
  proof -
    have "mathRound (real_of_int (?S c x) / real_of_int dv)
        = naive_horizontal pixels width radius c x y"
      by (simp add: mathRound_eq_round naive_horizontal_def boxAverage_def dv)
    moreover have "Hval pixels width radius c ?k = naive_horizontal pixels width radius c x y"
      using cell_div_mod [OF x] by (simp add: Hval_def)
    ultimately show ?thesis
      using naive_horizontal_bounds [OF gw(3), of pixels width c x y]
      by (simp add: mathRoundDiv_def toUint8Clamp_in_range(1))
  qed
  have ent': "uint (chan_arr c ?st' ! nat j) = Hval pixels width radius c j"
    if c: "c = 0 \<or> c = 1 \<or> c = 2" and j: "0 \<le> j" "j < ?k + 1" for c j
  proof -
    have kin: "0 \<le> ?k \<and> ?k < int (length (chan_arr c st))"
      using kb len [OF c] by simp
    have arr: "chan_arr c ?st' = (chan_arr c st)[nat ?k :=
        toUint8Clamp (mathRoundDiv (Some (?S c x)) dv)]"
      using kin by (simp add: hStep_arr [OF c] yi sums [OF c] wr8_def)
    have nk: "nat ?k < length (chan_arr c st)" using kin by auto
    show ?thesis
    proof (cases "j = ?k")
      case True
      then show ?thesis using nk avg by (simp add: arr)
    next
      case False
      then have "nat ?k \<noteq> nat j" "j < ?k" using j kb by auto
      then show ?thesis using ent [OF c j(1)] by (simp add: arr)
    qed
  qed
  have len': "length (chan_arr c ?st') = nat (width * height)" if "c = 0 \<or> c = 1 \<or> c = 2" for c
    using that len [OF that] by (simp add: hStep_arr)
  \<comment> \<open>the running sums after the step\<close>
  have sums': "chan_sum c ?st' = Some (?S c (x + 1))" if c: "c = 0 \<or> c = 1 \<or> c = 2" for c
  proof -
    let ?a = "min (x + radius + 1) (width - 1)"
    let ?b = "max (x - radius) 0"
    have "0 \<le> y * width" using y(1) gw(1) by simp
    then have xx: "0 \<le> x" "x < min (?k + 1) width" using x by auto
    have "x < int (length (sb_vmin ?st'))" "x < int (length (sb_vmax ?st'))"
      using lv' x by auto
    then have "rd32 (sb_vmin ?st') x = Some ?a" "rd32 (sb_vmax ?st') x = Some ?b"
      using vm' [OF xx] x(1) by (simp_all add: rd32_def)
    moreover have "rd8 pixels ((y * width + ?a) * 4 + c) = Some (channelAt pixels width c ?a y)"
      using x gw by (intro rd8_pixel [OF g _ _ y c]) auto
    moreover have "rd8 pixels ((y * width + ?b) * 4 + c) = Some (channelAt pixels width c ?b y)"
      using x gw by (intro rd8_pixel [OF g _ _ y c]) auto
    ultimately have "chan_sum c ?st'
        = Some (?S c x + (channelAt pixels width c ?a y - channelAt pixels width c ?b y))"
      by (simp add: hStep_sum [OF c] sums [OF c] px yw rd8n_def nadd_def nsub_def)
    also have "?S c x + (channelAt pixels width c ?a y - channelAt pixels width c ?b y)
        = ?S c (x + 1)"
      using windowSum_slide [OF gw(3) x, of "\<lambda>x'. channelAt pixels width c x' y"] by simp
    finally show ?thesis .
  qed
  have "hinv pixels width height radius (y * width + (x + 1)) ?st'"
    unfolding hinv_def using px len' lv' ent' vm' yi
    by (simp add: add.assoc)
  then show ?thesis
    unfolding hrow_inv_def using yw sums' by simp
qed

lemma hinv_cong:
  assumes "sb_pixels s = sb_pixels t" "sb_r s = sb_r t" "sb_g s = sb_g t" "sb_b s = sb_b t"
    "sb_vmin s = sb_vmin t" "sb_vmax s = sb_vmax t" "sb_yi s = sb_yi t"
  shows "hinv pixels width height radius k s = hinv pixels width height radius k t"
  using assms by (simp add: hinv_def chan_arr_def)

lemma hStep_loop:
  assumes g: "valid_geometry pixels width height radius"
    and y: "0 \<le> y" "y < height" and dv: "dv = 2 * radius + 1"
    and n: "int n \<le> width"
    and inv: "hrow_inv pixels width height radius y 0 st"
  shows "hrow_inv pixels width height radius y (int n)
           (foldl (hStep radius (width - 1) dv y) st (map int [0..<n]))"
  using n
proof (induction n)
  case 0
  then show ?case using inv by simp
next
  case (Suc n)
  then have ih: "hrow_inv pixels width height radius y (int n)
      (foldl (hStep radius (width - 1) dv y) st (map int [0..<n]))"
    and nw: "int n < width" by simp_all
  have "hrow_inv pixels width height radius y (int n + 1)
      (hStep radius (width - 1) dv y (foldl (hStep radius (width - 1) dv y) st (map int [0..<n])) (int n))"
    using nw by (intro hStep_inv [OF g y _ _ ih dv]) simp_all
  then show ?case by (simp add: add.commute)
qed

lemma hInit_sums:
  assumes g: "valid_geometry pixels width height radius"
    and y: "0 \<le> y" "y < height"
    and c: "c = 0 \<or> c = 1 \<or> c = 2"
    and st: "sb_pixels st = pixels" "sb_yi st = y * width" "chan_sum c st = Some 0"
  shows "chan_sum c (foldl (hInitStep (width - 1)) st [- radius..radius])
       = Some (windowSum (\<lambda>x'. channelAt pixels width c x' y) width radius 0)"
proof -
  have gw: "1 \<le> width" using g by (simp add: valid_geometry_def)
  let ?idx = "\<lambda>i. (y * width + min (width - 1) (max i 0)) * 4 + c"
  have rng: "\<forall>i \<in> set [- radius..radius]. 0 \<le> ?idx i \<and> ?idx i < int (length pixels)"
  proof
    fix i
    have "rd8 pixels (?idx i) = Some (channelAt pixels width c (min (width - 1) (max i 0)) y)"
      using gw by (intro rd8_pixel [OF g _ _ y c]) auto
    then show "0 \<le> ?idx i \<and> ?idx i < int (length pixels)"
      by (simp add: rd8_def split: if_splits)
  qed
  have "chan_sum c (foldl (hInitStep (width - 1)) st [- radius..radius])
      = foldl (\<lambda>s i. nadd s (rd8 pixels (?idx i))) (Some 0) [- radius..radius]"
    by (simp add: hInit_fold_sum [OF c] st)
  also have "\<dots> = Some (0 + sum_list (map (\<lambda>i. uint (pixels ! nat (?idx i))) [- radius..radius]))"
    using rng by (rule foldl_nadd_reads)
  also have "sum_list (map (\<lambda>i. uint (pixels ! nat (?idx i))) [- radius..radius])
      = windowSum (\<lambda>x'. channelAt pixels width c x' y) width radius 0"
    by (simp add: windowSum_0_h [OF gw] channelAt_def)
  finally show ?thesis by simp
qed

lemma hRow_inv:
  assumes g: "valid_geometry pixels width height radius"
    and y: "0 \<le> y" "y < height" and dv: "dv = 2 * radius + 1"
    and inv: "hinv pixels width height radius (y * width) st" "sb_yw st = y * width"
  shows "hinv pixels width height radius ((y + 1) * width) (hRow width radius (width - 1) dv st y)
       \<and> sb_yw (hRow width radius (width - 1) dv st y) = (y + 1) * width"
proof -
  have gw: "1 \<le> width" using g by (simp add: valid_geometry_def)
  let ?st1 = "st\<lparr>sb_rsum := Some 0, sb_gsum := Some 0, sb_bsum := Some 0\<rparr>"
  let ?st2 = "foldl (hInitStep (width - 1)) ?st1 [- radius..radius]"
  let ?st3 = "foldl (hStep radius (width - 1) dv y) ?st2 (map int [0..<nat width])"
  have px: "sb_pixels st = pixels" and yi: "sb_yi st = y * width"
    using inv(1) by (simp_all add: hinv_def)
  have h2: "hinv pixels width height radius (y * width + 0) ?st2"
    using inv(1) hinv_cong [of ?st2 st pixels width height radius "y * width"] by simp
  have s2: "chan_sum c ?st2 = Some (windowSum (\<lambda>x'. channelAt pixels width c x' y) width radius 0)"
    if c: "c = 0 \<or> c = 1 \<or> c = 2" for c
    using c by (intro hInit_sums [OF g y c]) (auto simp: px yi chan_sum_def)
  have "hrow_inv pixels width height radius y 0 ?st2"
    unfolding hrow_inv_def using h2 s2 inv(2) by simp
  then have "hrow_inv pixels width height radius y (int (nat width)) ?st3"
    using gw by (intro hStep_loop [OF g y dv]) simp_all
  then have r3: "hinv pixels width height radius (y * width + width) ?st3" "sb_yw ?st3 = y * width"
    using gw by (simp_all add: hrow_inv_def)
  have eq: "hRow width radius (width - 1) dv st y = ?st3\<lparr>sb_yw := sb_yw ?st3 + width\<rparr>"
    by (simp add: hRow_def Let_def)
  have "hinv pixels width height radius (y * width + width) (?st3\<lparr>sb_yw := sb_yw ?st3 + width\<rparr>)"
    using r3(1) hinv_cong [of "?st3\<lparr>sb_yw := sb_yw ?st3 + width\<rparr>" ?st3] by simp
  then show ?thesis
    using r3(2) by (simp add: eq algebra_simps)
qed

lemma horizontal_pass:
  assumes g: "valid_geometry pixels width height radius"
    and dv: "dv = 2 * radius + 1" and n: "int n \<le> height"
    and st0: "hinv pixels width height radius 0 st0" "sb_yw st0 = 0"
  shows "hinv pixels width height radius (int n * width)
           (foldl (hRow width radius (width - 1) dv) st0 (map int [0..<n]))
       \<and> sb_yw (foldl (hRow width radius (width - 1) dv) st0 (map int [0..<n])) = int n * width"
  using n
proof (induction n)
  case 0
  then show ?case using st0 by simp
next
  case (Suc n)
  let ?st = "foldl (hRow width radius (width - 1) dv) st0 (map int [0..<n])"
  from Suc have ih: "hinv pixels width height radius (int n * width) ?st"
    "sb_yw ?st = int n * width" and nh: "int n < height" by simp_all
  have "hinv pixels width height radius ((int n + 1) * width) (hRow width radius (width - 1) dv ?st (int n))
       \<and> sb_yw (hRow width radius (width - 1) dv ?st (int n)) = (int n + 1) * width"
    using nh by (intro hRow_inv [OF g _ _ dv ih]) simp_all
  then show ?case by (simp add: add.commute)
qed

subsection \<open>Fields after the steps of the vertical pass\<close>

lemma vInitStep_fields [simp]:
  "sb_r (vInitStep width x st i) = sb_r st" "sb_g (vInitStep width x st i) = sb_g st"
  "sb_b (vInitStep width x st i) = sb_b st" "sb_vmin (vInitStep width x st i) = sb_vmin st"
  "sb_vmax (vInitStep width x st i) = sb_vmax st" "sb_yw (vInitStep width x st i) = sb_yw st"
  "sb_yp (vInitStep width x st i) = sb_yp st + width"
  by (simp_all add: vInitStep_def Let_def)

lemma chan_arr_vInitStep [simp]: "chan_arr c (vInitStep width x st i) = chan_arr c st"
  by (simp add: chan_arr_def)

lemma vInitStep_sum:
  "c = 0 \<or> c = 1 \<or> c = 2 \<Longrightarrow>
     chan_sum c (vInitStep width x st i)
       = nadd (chan_sum c st) (rd8 (chan_arr c st) (max 0 (sb_yp st) + x))"
  by (auto simp: vInitStep_def Let_def chan_sum_def chan_arr_def)

lemma vInit_fold_fields [simp]:
  "sb_pixels (foldl (vInitStep width x) st xs) = sb_pixels st"
  "sb_r (foldl (vInitStep width x) st xs) = sb_r st" "sb_g (foldl (vInitStep width x) st xs) = sb_g st"
  "sb_b (foldl (vInitStep width x) st xs) = sb_b st"
  "sb_vmin (foldl (vInitStep width x) st xs) = sb_vmin st"
  "sb_vmax (foldl (vInitStep width x) st xs) = sb_vmax st"
  by (induction xs arbitrary: st; simp)+

lemma vInit_fold_sum:
  assumes c: "c = 0 \<or> c = 1 \<or> c = 2"
  shows "sb_yp st = lo * width \<Longrightarrow>
     chan_sum c (foldl (vInitStep width x) st [lo..hi])
       = foldl (\<lambda>s i. nadd s (rd8 (chan_arr c st) (max 0 (i * width) + x))) (chan_sum c st) [lo..hi]"
proof (induction lo hi arbitrary: st rule: upto.induct)
  case (1 i j)
  show ?case
  proof (cases "i \<le> j")
    case True
    have yp: "sb_yp (vInitStep width x st i) = (i + 1) * width"
      using 1(2) by (simp add: algebra_simps)
    show ?thesis
      using True 1(1) [OF True yp] 1(2)
      by (simp add: upto_rec1 [of i j] vInitStep_sum [OF c])
  next
    case False
    then show ?thesis by simp
  qed
qed

lemma vStep_fields [simp]:
  "sb_r (vStep width radius hm dv x st y) = sb_r st"
  "sb_g (vStep width radius hm dv x st y) = sb_g st"
  "sb_b (vStep width radius hm dv x st y) = sb_b st"
  "sb_yi (vStep width radius hm dv x st y) = sb_yi st + width"
  "sb_yw (vStep width radius hm dv x st y) = sb_yw st"
  "sb_yp (vStep width radius hm dv x st y) = sb_yp st"
  by (simp_all add: vStep_def Let_def)

lemma chan_arr_vStep [simp]: "chan_arr c (vStep width radius hm dv x st y) = chan_arr c st"
  by (simp add: chan_arr_def)

lemma vStep_vmin:
  "sb_vmin (vStep width radius hm dv x st y)
     = (if x = 0 then wr32 (sb_vmin st) y (min (y + radius + 1) hm * width) else sb_vmin st)"
  "sb_vmax (vStep width radius hm dv x st y)
     = (if x = 0 then wr32 (sb_vmax st) y (max (y - radius) 0 * width) else sb_vmax st)"
  by (simp_all add: vStep_def Let_def)

lemma vStep_pixels:
  "sb_pixels (vStep width radius hm dv x st y)
     = wr8 (wr8 (wr8 (sb_pixels st) (sb_yi st * 4) (mathRoundDiv (chan_sum 0 st) dv))
              (sb_yi st * 4 + 1) (mathRoundDiv (chan_sum 1 st) dv))
         (sb_yi st * 4 + 2) (mathRoundDiv (chan_sum 2 st) dv)"
  by (simp add: vStep_def Let_def chan_sum_def)

lemma plus_zero_fun: "(+) (0::int) = (\<lambda>v. v)"
  by (simp add: fun_eq_iff)

lemma vStep_sum:
  "c = 0 \<or> c = 1 \<or> c = 2 \<Longrightarrow>
     chan_sum c (vStep width radius hm dv x st y)
       = nadd (chan_sum c st)
           (nsub (rd8n (chan_arr c st)
                    (map_option (\<lambda>v. x + v) (rd32 (sb_vmin (vStep width radius hm dv x st y)) y)) 0)
                 (rd8n (chan_arr c st)
                    (map_option (\<lambda>v. x + v) (rd32 (sb_vmax (vStep width radius hm dv x st y)) y)) 0))"
  by (elim disjE) (simp_all add: vStep_def Let_def chan_sum_def chan_arr_def plus_zero_fun)

lemma naive_vertical_bounds:
  "0 \<le> radius \<Longrightarrow> 0 \<le> naive_vertical pixels width height radius c x y
      \<and> naive_vertical pixels width height radius c x y \<le> 255"
  unfolding naive_vertical_def
  by (rule boxAverage_bounds) (simp_all add: naive_horizontal_bounds)

lemma wr8_nth:
  assumes "0 \<le> i" "i < int (length a)"
  shows "wr8 a i v ! j = (if j = nat i then toUint8Clamp v else a ! j)"
proof -
  have "nat i < length a" using assms by auto
  then show ?thesis using assms by (simp add: wr8_def nth_list_update)
qed

lemma rd8_harr:
  assumes g: "valid_geometry pixels width height radius"
    and h: "harr pixels width height radius st"
    and x: "0 \<le> x" "x < width" and a: "0 \<le> a" "a < height"
    and c: "c = 0 \<or> c = 1 \<or> c = 2"
  shows "rd8 (chan_arr c st) (a * width + x) = Some (naive_horizontal pixels width radius c x a)"
proof -
  have kb: "0 \<le> a * width + x" "a * width + x < width * height"
    using cell_index_bound [OF x a] by simp_all
  have len: "length (chan_arr c st) = nat (width * height)"
    using h c by (auto simp: harr_def)
  have "uint (chan_arr c st ! nat (a * width + x)) = Hval pixels width radius c (a * width + x)"
    using h c kb by (auto simp: harr_def)
  also have "\<dots> = naive_horizontal pixels width radius c x a"
    using cell_div_mod [OF x] by (simp add: Hval_def)
  finally show ?thesis using kb len by (simp add: rd8_def)
qed

lemma pixel_index_split:
  assumes "0 \<le> k" "int (j div 4) = k" "j mod 4 \<noteq> 3"
  shows "j = nat (k * 4) \<or> j = nat (k * 4 + 1) \<or> j = nat (k * 4 + 2)"
proof -
  have "int j = int (j div 4) * 4 + int (j mod 4)"
    by (simp add: zdiv_int zmod_int)
  then have e: "int j = k * 4 + int (j mod 4)" using assms(2) by simp
  have "j mod 4 = 0 \<or> j mod 4 = 1 \<or> j mod 4 = 2" using assms(3) by presburger
  then have "int j = k * 4 \<or> int j = k * 4 + 1 \<or> int j = k * 4 + 2"
    using e by auto
  then show ?thesis by (metis nat_int)
qed

lemma pixel_index_cell:
  assumes "0 \<le> k" "c = 0 \<or> c = 1 \<or> c = 2"
  shows "int (nat (k * 4 + c) div 4) = k" "int (nat (k * 4 + c) mod 4) = c"
proof -
  have n: "0 \<le> k * 4 + c" using assms by auto
  have "int (nat (k * 4 + c) div 4) = (k * 4 + c) div 4"
    using n by (simp add: zdiv_int)
  also have "\<dots> = k" using assms(2) by auto
  finally show "int (nat (k * 4 + c) div 4) = k" .
  have "int (nat (k * 4 + c) mod 4) = (k * 4 + c) mod 4"
    using n by (simp add: zmod_int)
  also have "\<dots> = c" using assms(2) by auto
  finally show "int (nat (k * 4 + c) mod 4) = c" .
qed

lemma vStep_inv:
  assumes g: "valid_geometry pixels width height radius"
    and x: "0 \<le> x" "x < width" and y: "0 \<le> y" "y < height"
    and dv: "dv = 2 * radius + 1"
    and inv: "vcol_inv pixels width height radius x y st"
  shows "vcol_inv pixels width height radius x (y + 1) (vStep width radius (height - 1) dv x st y)"
proof -
  let ?k = "y * width + x"
  let ?st' = "vStep width radius (height - 1) dv x st y"
  let ?S = "\<lambda>c y. windowSum (\<lambda>y'. naive_horizontal pixels width radius c x y') height radius y"
  have gw: "1 \<le> width" "1 \<le> height" "0 \<le> radius" "int (length pixels) = 4 * width * height"
    "width * height < 2 ^ 32"
    using g by (simp_all add: valid_geometry_def)
  have vi: "vinv pixels width height radius x y st" and yi: "sb_yi st = ?k"
    and sums: "\<And>c. c = 0 \<or> c = 1 \<or> c = 2 \<Longrightarrow> chan_sum c st = Some (?S c y)"
    using inv by (auto simp: vcol_inv_def)
  have ha: "harr pixels width height radius st"
    and lv: "length (sb_vmin st) = nat (max width height)"
      "length (sb_vmax st) = nat (max width height)"
    and vm: "\<And>y'. 0 \<le> y' \<Longrightarrow> y' < (if x = 0 then y else height) \<Longrightarrow>
        uint (sb_vmin st ! nat y') = min (y' + radius + 1) (height - 1) * width
        \<and> uint (sb_vmax st ! nat y') = max (y' - radius) 0 * width"
    and lp: "length (sb_pixels st) = length pixels"
    and pe: "\<And>j. j < length pixels \<Longrightarrow> sb_pixels st ! j = Vpix pixels width height radius x y j"
    using vi by (auto simp: vinv_def)
  have kb: "0 \<le> ?k" "?k < width * height"
    using cell_index_bound [OF x y] by simp_all
  have ny: "nat y < length (sb_vmin st)" "nat y < length (sb_vmax st)"
    using y lv by auto
  have yin: "0 \<le> y \<and> y < int (length (sb_vmin st))" "0 \<le> y \<and> y < int (length (sb_vmax st))"
    using y lv by auto
  \<comment> \<open>the side tables after the step\<close>
  have vm': "uint (sb_vmin ?st' ! nat y') = min (y' + radius + 1) (height - 1) * width
        \<and> uint (sb_vmax ?st' ! nat y') = max (y' - radius) 0 * width"
    if y': "0 \<le> y'" "y' < (if x = 0 then y + 1 else height)" for y'
  proof (cases "x = 0")
    case True
    have a: "0 \<le> min (y + radius + 1) (height - 1)" "min (y + radius + 1) (height - 1) < height"
      using y gw by auto
    have "0 \<le> min (y + radius + 1) (height - 1) * width + 0"
      "min (y + radius + 1) (height - 1) * width + 0 < width * height"
      using cell_index_bound [of 0 width "min (y + radius + 1) (height - 1)" height] a gw
      by simp_all
    then have "0 \<le> min (y + radius + 1) (height - 1) * width"
      "min (y + radius + 1) (height - 1) * width < 2 ^ 32"
      using gw(5) by linarith+
    then have r1: "uint (word_of_int (min (y + radius + 1) (height - 1) * width) :: 32 word)
        = min (y + radius + 1) (height - 1) * width"
      by (intro uint32_roundtrip)
    have b: "0 \<le> max (y - radius) 0" "max (y - radius) 0 < height"
      using y gw by auto
    have "0 \<le> max (y - radius) 0 * width + 0"
      "max (y - radius) 0 * width + 0 < width * height"
      using cell_index_bound [of 0 width "max (y - radius) 0" height] b gw
      by simp_all
    then have "0 \<le> max (y - radius) 0 * width" "max (y - radius) 0 * width < 2 ^ 32"
      using gw(5) by linarith+
    then have r2: "uint (word_of_int (max (y - radius) 0 * width) :: 32 word)
        = max (y - radius) 0 * width"
      by (intro uint32_roundtrip)
    show ?thesis
    proof (cases "y' = y")
      case True
      then show ?thesis using \<open>x = 0\<close> yin ny r1 r2 by (simp add: vStep_vmin wr32_def)
    next
      case False
      then have "y' < (if x = 0 then y else height)" "nat y \<noteq> nat y'"
        using y' y \<open>x = 0\<close> by auto
      then show ?thesis using \<open>x = 0\<close> vm [OF y'(1)] by (simp add: vStep_vmin wr32_def)
    qed
  next
    case False
    then show ?thesis using vm [OF y'(1)] y'(2) by (simp add: vStep_vmin)
  qed
  have lv': "length (sb_vmin ?st') = nat (max width height)"
    "length (sb_vmax ?st') = nat (max width height)"
    using lv by (simp_all add: vStep_vmin)
  have ha': "harr pixels width height radius ?st'"
    using ha by (simp add: harr_def)
  \<comment> \<open>the pixels after the step\<close>
  have avg: "toUint8Clamp (mathRoundDiv (Some (?S c y)) dv)
      = word_of_int (naive_vertical pixels width height radius c x y)" for c
  proof -
    have "mathRound (real_of_int (?S c y) / real_of_int dv)
        = naive_vertical pixels width height radius c x y"
      by (simp add: mathRound_eq_round naive_vertical_def boxAverage_def dv)
    then show ?thesis
      using naive_vertical_bounds [OF gw(3), of pixels width height c x y]
      by (simp add: mathRoundDiv_def toUint8Clamp_in_range(2))
  qed
  have in0: "0 \<le> ?k * 4" "?k * 4 < int (length pixels)"
    and in1: "0 \<le> ?k * 4 + 1" "?k * 4 + 1 < int (length pixels)"
    and in2: "0 \<le> ?k * 4 + 2" "?k * 4 + 2 < int (length pixels)"
    using kb gw(4) by auto
  have newpx: "sb_pixels ?st' ! j =
      (if j = nat (?k * 4 + 2) then word_of_int (naive_vertical pixels width height radius 2 x y)
       else if j = nat (?k * 4 + 1) then word_of_int (naive_vertical pixels width height radius 1 x y)
       else if j = nat (?k * 4) then word_of_int (naive_vertical pixels width height radius 0 x y)
       else sb_pixels st ! j)" for j
    using in0 in1 in2 lp
    by (simp add: vStep_pixels yi sums avg wr8_nth)
  have pe': "sb_pixels ?st' ! j = Vpix pixels width height radius x (y + 1) j"
    if j: "j < length pixels" for j
  proof (cases "int (j div 4) = ?k")
    case True
    have cx: "int (j div 4) mod width = x" "int (j div 4) div width = y"
      using True cell_div_mod [OF x, of y] by simp_all
    show ?thesis
    proof (cases "j mod 4 = 3")
      case True
      then have "j \<noteq> nat (?k * 4 + 2)" "j \<noteq> nat (?k * 4 + 1)" "j \<noteq> nat (?k * 4)"
        using pixel_index_cell [OF kb(1), of 2] pixel_index_cell [OF kb(1), of 1]
          pixel_index_cell [OF kb(1), of 0] by auto
      then show ?thesis using True pe [OF j] by (simp add: newpx Vpix_def)
    next
      case False
      have d: "vdone x (y + 1) x y" by (simp add: vdone_def)
      from pixel_index_split [OF kb(1) \<open>int (j div 4) = ?k\<close> False]
      consider "j = nat (?k * 4)" | "j = nat (?k * 4 + 1)" | "j = nat (?k * 4 + 2)" by blast
      then show ?thesis
      proof cases
        case 1
        have m: "int (j mod 4) = 0" using 1 pixel_index_cell(2) [OF kb(1), of 0] by simp
        have "j \<noteq> nat (?k * 4 + 2)" "j \<noteq> nat (?k * 4 + 1)" using 1 kb(1) by auto
        then show ?thesis using 1 False m d cx by (simp add: newpx Vpix_def)
      next
        case 2
        have m: "int (j mod 4) = 1" using 2 pixel_index_cell(2) [OF kb(1), of 1] by simp
        have "j \<noteq> nat (?k * 4 + 2)" using 2 kb(1) by auto
        then show ?thesis using 2 False m d cx by (simp add: newpx Vpix_def)
      next
        case 3
        have m: "int (j mod 4) = 2" using 3 pixel_index_cell(2) [OF kb(1), of 2] by simp
        show ?thesis using 3 False m d cx by (simp add: newpx Vpix_def)
      qed
    qed
  next
    case False
    then have "j \<noteq> nat (?k * 4 + 2)" "j \<noteq> nat (?k * 4 + 1)" "j \<noteq> nat (?k * 4)"
      using pixel_index_cell(1) [OF kb(1), of 2] pixel_index_cell(1) [OF kb(1), of 1]
        pixel_index_cell(1) [OF kb(1), of 0] by auto
    then have same: "sb_pixels ?st' ! j = Vpix pixels width height radius x y j"
      using pe [OF j] by (simp add: newpx)
    have "\<not> (int (j div 4) mod width = x \<and> int (j div 4) div width = y)"
    proof
      assume "int (j div 4) mod width = x \<and> int (j div 4) div width = y"
      then have "int (j div 4) = y * width + x"
        using div_mult_mod_eq [of "int (j div 4)" width] by simp
      then show False using False by simp
    qed
    then have "vdone x (y + 1) (int (j div 4) mod width) (int (j div 4) div width)
        = vdone x y (int (j div 4) mod width) (int (j div 4) div width)"
      by (auto simp: vdone_def)
    then show ?thesis using same by (simp add: Vpix_def)
  qed
  have lp': "length (sb_pixels ?st') = length pixels"
    using lp by (simp add: vStep_pixels)
  \<comment> \<open>the running sums after the step\<close>
  have sums': "chan_sum c ?st' = Some (?S c (y + 1))" if c: "c = 0 \<or> c = 1 \<or> c = 2" for c
  proof -
    let ?a = "min (y + radius + 1) (height - 1)"
    let ?b = "max (y - radius) 0"
    have yy: "0 \<le> y" "y < (if x = 0 then y + 1 else height)" using y by auto
    have "y < int (length (sb_vmin ?st'))" "y < int (length (sb_vmax ?st'))"
      using lv' y by auto
    then have "rd32 (sb_vmin ?st') y = Some (?a * width)" "rd32 (sb_vmax ?st') y = Some (?b * width)"
      using vm' [OF yy] y(1) by (simp_all add: rd32_def)
    moreover have "rd8 (chan_arr c st) (?a * width + x) = Some (naive_horizontal pixels width radius c x ?a)"
      using y gw by (intro rd8_harr [OF g ha x _ _ c]) auto
    moreover have "rd8 (chan_arr c st) (?b * width + x) = Some (naive_horizontal pixels width radius c x ?b)"
      using y gw by (intro rd8_harr [OF g ha x _ _ c]) auto
    ultimately have "chan_sum c ?st'
        = Some (?S c y + (naive_horizontal pixels width radius c x ?a
                            - naive_horizontal pixels width radius c x ?b))"
      by (simp add: vStep_sum [OF c] sums [OF c] rd8n_def nadd_def nsub_def add.commute)
    also have "?S c y + (naive_horizontal pixels width radius c x ?a
                            - naive_horizontal pixels width radius c x ?b) = ?S c (y + 1)"
      using windowSum_slide [OF gw(3) y, of "\<lambda>y'. naive_horizontal pixels width radius c x y'"]
      by simp
    finally show ?thesis .
  qed
  have "vinv pixels width height radius x (y + 1) ?st'"
    unfolding vinv_def using ha' lv' vm' lp' pe' by simp
  then show ?thesis
    unfolding vcol_inv_def using yi sums' by (simp add: algebra_simps)
qed

lemma vinv_cong:
  assumes "sb_pixels s = sb_pixels t" "sb_r s = sb_r t" "sb_g s = sb_g t" "sb_b s = sb_b t"
    "sb_vmin s = sb_vmin t" "sb_vmax s = sb_vmax t"
  shows "vinv pixels width height radius x y s = vinv pixels width height radius x y t"
  using assms by (simp add: vinv_def harr_def chan_arr_def)

lemma harr_cong:
  assumes "sb_r s = sb_r t" "sb_g s = sb_g t" "sb_b s = sb_b t"
  shows "harr pixels width height radius s = harr pixels width height radius t"
  using assms by (simp add: harr_def chan_arr_def)

lemma vStep_loop:
  assumes g: "valid_geometry pixels width height radius"
    and x: "0 \<le> x" "x < width" and dv: "dv = 2 * radius + 1"
    and n: "int n \<le> height"
    and inv: "vcol_inv pixels width height radius x 0 st"
  shows "vcol_inv pixels width height radius x (int n)
           (foldl (vStep width radius (height - 1) dv x) st (map int [0..<n]))"
  using n
proof (induction n)
  case 0
  then show ?case using inv by simp
next
  case (Suc n)
  then have ih: "vcol_inv pixels width height radius x (int n)
      (foldl (vStep width radius (height - 1) dv x) st (map int [0..<n]))"
    and nh: "int n < height" by simp_all
  have "vcol_inv pixels width height radius x (int n + 1)
      (vStep width radius (height - 1) dv x
         (foldl (vStep width radius (height - 1) dv x) st (map int [0..<n])) (int n))"
    using nh by (intro vStep_inv [OF g x _ _ dv ih]) simp_all
  then show ?case by (simp add: add.commute)
qed

lemma vInit_sums:
  assumes g: "valid_geometry pixels width height radius" and r: "radius < height"
    and x: "0 \<le> x" "x < width" and c: "c = 0 \<or> c = 1 \<or> c = 2"
    and st: "harr pixels width height radius st" "sb_yp st = - radius * width"
      "chan_sum c st = Some 0"
  shows "chan_sum c (foldl (vInitStep width x) st [- radius..radius])
       = Some (windowSum (\<lambda>y'. naive_horizontal pixels width radius c x y') height radius 0)"
proof -
  have gw: "1 \<le> width" using g by (simp add: valid_geometry_def)
  let ?idx = "\<lambda>i. max 0 (i * width) + x"
  have rd: "rd8 (chan_arr c st) (?idx i) = Some (naive_horizontal pixels width radius c x (max 0 i))"
    if "i \<in> set [- radius..radius]" for i
  proof -
    have "max 0 (i * width) = max 0 i * width"
    proof (cases "0 \<le> i")
      case True
      then have "0 \<le> i * width" using gw by simp
      then show ?thesis using True by simp
    next
      case False
      then have "i * width \<le> 0" using gw by (simp add: mult_le_0_iff)
      then show ?thesis using False by simp
    qed
    moreover have "rd8 (chan_arr c st) (max 0 i * width + x)
        = Some (naive_horizontal pixels width radius c x (max 0 i))"
      using that r by (intro rd8_harr [OF g st(1) x _ _ c]) auto
    ultimately show ?thesis by simp
  qed
  have rng: "\<forall>i \<in> set [- radius..radius]. 0 \<le> ?idx i \<and> ?idx i < int (length (chan_arr c st))"
  proof
    fix i assume "i \<in> set [- radius..radius]"
    from rd [OF this] show "0 \<le> ?idx i \<and> ?idx i < int (length (chan_arr c st))"
      by (simp add: rd8_def split: if_splits)
  qed
  have val: "map (\<lambda>i. uint (chan_arr c st ! nat (?idx i))) [- radius..radius]
      = map (\<lambda>i. naive_horizontal pixels width radius c x (max 0 i)) [- radius..radius]"
  proof (rule map_cong [OF refl])
    fix i assume "i \<in> set [- radius..radius]"
    from rd [OF this] show "uint (chan_arr c st ! nat (?idx i))
        = naive_horizontal pixels width radius c x (max 0 i)"
      by (simp add: rd8_def split: if_splits)
  qed
  have "- radius * width = (- radius) * width" by simp
  then have "chan_sum c (foldl (vInitStep width x) st [- radius..radius])
      = foldl (\<lambda>s i. nadd s (rd8 (chan_arr c st) (?idx i))) (Some 0) [- radius..radius]"
    using vInit_fold_sum [OF c, of st "- radius" width x radius] st(2,3) by simp
  also have "\<dots> = Some (0 + sum_list (map (\<lambda>i. uint (chan_arr c st ! nat (?idx i))) [- radius..radius]))"
    using rng by (rule foldl_nadd_reads)
  also have "sum_list (map (\<lambda>i. uint (chan_arr c st ! nat (?idx i))) [- radius..radius])
      = windowSum (\<lambda>y'. naive_horizontal pixels width radius c x y') height radius 0"
    by (simp only: val windowSum_0_v [OF r])
  finally show ?thesis by simp
qed

lemma cell_row_bound:
  assumes g: "valid_geometry pixels width height radius" and j: "j < length pixels"
  shows "0 \<le> int (j div 4) div width" "int (j div 4) div width < height"
    "0 \<le> int (j div 4) mod width" "int (j div 4) mod width < width"
proof -
  have gw: "1 \<le> width" "int (length pixels) = 4 * width * height"
    using g by (simp_all add: valid_geometry_def)
  have "int j < 4 * (width * height)" using j gw(2) by simp
  then have "int j div 4 < width * height" by simp
  then have lt: "int (j div 4) < height * width" by (simp add: zdiv_int mult.commute)
  show "0 \<le> int (j div 4) div width" using gw(1) by (simp add: pos_imp_zdiv_nonneg_iff)
  have "int (j div 4) \<le> (height - 1) * width + (width - 1)"
    using lt by (simp add: algebra_simps)
  then have "int (j div 4) div width \<le> ((height - 1) * width + (width - 1)) div width"
    using gw(1) by (intro zdiv_mono1) simp_all
  also have "\<dots> = height - 1"
    using gw(1) by (intro cell_div_mod(1)) simp_all
  finally show "int (j div 4) div width < height" by simp
  show "0 \<le> int (j div 4) mod width" "int (j div 4) mod width < width"
    using gw(1) by simp_all
qed

lemma vinv_next_col:
  assumes g: "valid_geometry pixels width height radius" and x: "0 \<le> x"
    and inv: "vinv pixels width height radius x height st"
  shows "vinv pixels width height radius (x + 1) 0 st"
proof -
  have "Vpix pixels width height radius (x + 1) 0 j = Vpix pixels width height radius x height j"
    if "j < length pixels" for j
  proof -
    have "vdone (x + 1) 0 (int (j div 4) mod width) (int (j div 4) div width)
        = vdone x height (int (j div 4) mod width) (int (j div 4) div width)"
      using cell_row_bound(1,2) [OF g that] by (auto simp: vdone_def)
    then show ?thesis by (simp add: Vpix_def)
  qed
  then show ?thesis
    using inv x by (auto simp: vinv_def)
qed

lemma vCol_inv:
  assumes g: "valid_geometry pixels width height radius" and r: "radius < height"
    and x: "0 \<le> x" "x < width" and dv: "dv = 2 * radius + 1"
    and inv: "vinv pixels width height radius x 0 st"
  shows "vinv pixels width height radius (x + 1) 0 (vCol width height radius (height - 1) dv st x)"
proof -
  have gh: "1 \<le> height" using g by (simp add: valid_geometry_def)
  let ?st1 = "st\<lparr>sb_rsum := Some 0, sb_gsum := Some 0, sb_bsum := Some 0,
                 sb_yp := - radius * width\<rparr>"
  let ?st2 = "foldl (vInitStep width x) ?st1 [- radius..radius]"
  let ?st3 = "?st2\<lparr>sb_yi := x\<rparr>"
  let ?st4 = "foldl (vStep width radius (height - 1) dv x) ?st3 (map int [0..<nat height])"
  have "harr pixels width height radius st"
    using inv by (simp add: vinv_def)
  then have h1: "harr pixels width height radius ?st1"
    using harr_cong [of ?st1 st] by simp
  have v3: "vinv pixels width height radius x 0 ?st3"
    using inv vinv_cong [of ?st3 st pixels width height radius x 0] by simp
  have s3: "chan_sum c ?st3
      = Some (windowSum (\<lambda>y'. naive_horizontal pixels width radius c x y') height radius 0)"
    if c: "c = 0 \<or> c = 1 \<or> c = 2" for c
  proof -
    have "chan_sum c ?st3 = chan_sum c ?st2"
      by (simp add: chan_sum_def)
    also have "\<dots>
        = Some (windowSum (\<lambda>y'. naive_horizontal pixels width radius c x y') height radius 0)"
      using c by (intro vInit_sums [OF g r x c h1]) (auto simp: chan_sum_def)
    finally show ?thesis .
  qed
  have "vcol_inv pixels width height radius x 0 ?st3"
    unfolding vcol_inv_def using v3 s3 by simp
  then have "vcol_inv pixels width height radius x (int (nat height)) ?st4"
    using gh by (intro vStep_loop [OF g x dv]) simp_all
  then have "vinv pixels width height radius x height ?st4"
    using gh by (simp add: vcol_inv_def)
  then have "vinv pixels width height radius (x + 1) 0 ?st4"
    by (rule vinv_next_col [OF g x(1)])
  moreover have "vCol width height radius (height - 1) dv st x = ?st4"
    by (simp add: vCol_def Let_def)
  ultimately show ?thesis by simp
qed

lemma vertical_pass:
  assumes g: "valid_geometry pixels width height radius" and r: "radius < height"
    and dv: "dv = 2 * radius + 1" and n: "int n \<le> width"
    and st1: "vinv pixels width height radius 0 0 st1"
  shows "vinv pixels width height radius (int n) 0
           (foldl (vCol width height radius (height - 1) dv) st1 (map int [0..<n]))"
  using n
proof (induction n)
  case 0
  then show ?case using st1 by simp
next
  case (Suc n)
  let ?st = "foldl (vCol width height radius (height - 1) dv) st1 (map int [0..<n])"
  from Suc have ih: "vinv pixels width height radius (int n) 0 ?st" and nw: "int n < width"
    by simp_all
  have "vinv pixels width height radius (int n + 1) 0
      (vCol width height radius (height - 1) dv ?st (int n))"
    using nw by (intro vCol_inv [OF g r _ _ dv ih]) simp_all
  then show ?case by (simp add: add.commute)
qed

theorem stackBlur_passes_box_average:
  assumes g: "valid_geometry pixels width height radius" and r: "radius < height"
  shows "stackBlur_passes pixels width height radius = naive_box_blur pixels width height radius"
proof -
  have gw: "1 \<le> width" "1 \<le> height" "0 \<le> radius" "int (length pixels) = 4 * width * height"
    using g by (simp_all add: valid_geometry_def)
  let ?dv = "radius + radius + 1"
  have dv: "?dv = 2 * radius + 1" by simp
  let ?st0 = "\<lparr>sb_pixels = pixels,
      sb_r = replicate (nat (width * height)) 0, sb_g = replicate (nat (width * height)) 0,
      sb_b = replicate (nat (width * height)) 0,
      sb_vmin = replicate (nat (max width height)) 0,
      sb_vmax = replicate (nat (max width height)) 0,
      sb_rsum = None, sb_gsum = None, sb_bsum = None, sb_yi = 0, sb_yw = 0, sb_yp = 0\<rparr>"
  let ?st1 = "foldl (hRow width radius (width - 1) ?dv) ?st0 (map int [0..<nat height])"
  let ?st2 = "foldl (vCol width height radius (height - 1) ?dv) ?st1 (map int [0..<nat width])"
  have h0: "hinv pixels width height radius 0 ?st0"
    by (simp add: hinv_def chan_arr_def)
  have "hinv pixels width height radius (int (nat height) * width) ?st1"
    using gw by (intro horizontal_pass [OF g dv _ h0, THEN conjunct1]) simp_all
  then have h1: "hinv pixels width height radius (width * height) ?st1"
    using gw by (simp add: mult.commute)
  have v0: "vinv pixels width height radius 0 0 ?st1"
  proof -
    have "Vpix pixels width height radius 0 0 j = pixels ! j" if "j < length pixels" for j
      using cell_row_bound(1,3) [OF g that] by (auto simp: Vpix_def vdone_def)
    then show ?thesis
      using h1 by (auto simp: vinv_def harr_def hinv_def)
  qed
  have "vinv pixels width height radius (int (nat width)) 0 ?st2"
    using gw by (intro vertical_pass [OF g r dv _ v0]) simp_all
  then have v2: "vinv pixels width height radius width 0 ?st2"
    using gw by simp
  have len: "length (sb_pixels ?st2) = length pixels"
    using v2 by (simp add: vinv_def)
  have nth: "sb_pixels ?st2 ! j = naive_box_blur pixels width height radius ! j"
    if j: "j < length pixels" for j
  proof -
    have "sb_pixels ?st2 ! j = Vpix pixels width height radius width 0 j"
      using v2 j by (simp add: vinv_def)
    moreover have "vdone width 0 (int (j div 4) mod width) (int (j div 4) div width)"
      using cell_row_bound(4) [OF g j] by (simp add: vdone_def)
    ultimately show ?thesis
      using j by (simp add: Vpix_def naive_box_blur_def)
  qed
  have "sb_pixels ?st2 = naive_box_blur pixels width height radius"
    using len nth by (intro nth_equalityI) (simp_all add: naive_box_blur_def)
  then show ?thesis
    by (simp add: stackBlur_passes_def Let_def)
qed

subsection \<open>The passes on concrete buffers\<close>

text \<open>The steps on a state given field by field, for evaluation.\<close>

lemma upto_m1_1: "[- 1..1] = [- 1, 0, 1::int]"
  by (simp add: upto_rec1)

lemma hInitStep_eval:
  "hInitStep wm \<lparr>sb_pixels = px, sb_r = r, sb_g = g, sb_b = b, sb_vmin = vmin, sb_vmax = vmax,
      sb_rsum = rs, sb_gsum = gs, sb_bsum = bs, sb_yi = yi, sb_yw = yw, sb_yp = yp\<rparr> i
   = \<lparr>sb_pixels = px, sb_r = r, sb_g = g, sb_b = b, sb_vmin = vmin, sb_vmax = vmax,
      sb_rsum = nadd rs (rd8 px ((yi + min wm (max i 0)) * 4)),
      sb_gsum = nadd gs (rd8 px ((yi + min wm (max i 0)) * 4 + 1)),
      sb_bsum = nadd bs (rd8 px ((yi + min wm (max i 0)) * 4 + 2)),
      sb_yi = yi, sb_yw = yw, sb_yp = yp\<rparr>"
  by (simp add: hInitStep_def Let_def)

lemma hStep_eval:
  "hStep radius wm dv y \<lparr>sb_pixels = px, sb_r = r, sb_g = g, sb_b = b, sb_vmin = vmin, sb_vmax = vmax,
      sb_rsum = rs, sb_gsum = gs, sb_bsum = bs, sb_yi = yi, sb_yw = yw, sb_yp = yp\<rparr> x
   = (let vmin' = (if y = 0 then wr32 vmin x (min (x + radius + 1) wm) else vmin);
          vmax' = (if y = 0 then wr32 vmax x (max (x - radius) 0) else vmax);
          p = map_option (\<lambda>v. (yw + v) * 4) (rd32 vmin' x);
          p2 = map_option (\<lambda>v. (yw + v) * 4) (rd32 vmax' x)
      in \<lparr>sb_pixels = px, sb_r = wr8 r yi (mathRoundDiv rs dv), sb_g = wr8 g yi (mathRoundDiv gs dv),
          sb_b = wr8 b yi (mathRoundDiv bs dv), sb_vmin = vmin', sb_vmax = vmax',
          sb_rsum = nadd rs (nsub (rd8n px p 0) (rd8n px p2 0)),
          sb_gsum = nadd gs (nsub (rd8n px p 1) (rd8n px p2 1)),
          sb_bsum = nadd bs (nsub (rd8n px p 2) (rd8n px p2 2)),
          sb_yi = yi + 1, sb_yw = yw, sb_yp = yp\<rparr>)"
  by (simp add: hStep_def Let_def)

lemma vInitStep_eval:
  "vInitStep width x \<lparr>sb_pixels = px, sb_r = r, sb_g = g, sb_b = b, sb_vmin = vmin, sb_vmax = vmax,
      sb_rsum = rs, sb_gsum = gs, sb_bsum = bs, sb_yi = yi, sb_yw = yw, sb_yp = yp\<rparr> i
   = \<lparr>sb_pixels = px, sb_r = r, sb_g = g, sb_b = b, sb_vmin = vmin, sb_vmax = vmax,
      sb_rsum = nadd rs (rd8 r (max 0 yp + x)),
      sb_gsum = nadd gs (rd8 g (max 0 yp + x)),
      sb_bsum = nadd bs (rd8 b (max 0 yp + x)),
      sb_yi = max 0 yp + x, sb_yw = yw, sb_yp = yp + width\<rparr>"
  by (simp add: vInitStep_def Let_def)

lemma vStep_eval:
  "vStep width radius hm dv x \<lparr>sb_pixels = px, sb_r = r, sb_g = g, sb_b = b, sb_vmin = vmin, sb_vmax = vmax,
      sb_rsum = rs, sb_gsum = gs, sb_bsum = bs, sb_yi = yi, sb_yw = yw, sb_yp = yp\<rparr> y
   = (let vmin' = (if x = 0 then wr32 vmin y (min (y + radius + 1) hm * width) else vmin);
          vmax' = (if x = 0 then wr32 vmax y (max (y - radius) 0 * width) else vmax);
          p1 = map_option (\<lambda>v. x + v) (rd32 vmin' y);
          p2 = map_option (\<lambda>v. x + v) (rd32 vmax' y)
      in \<lparr>sb_pixels = wr8 (wr8 (wr8 px (yi * 4) (mathRoundDiv rs dv)) (yi * 4 + 1) (mathRoundDiv gs dv))
             (yi * 4 + 2) (mathRoundDiv bs dv),
          sb_r = r, sb_g = g, sb_b = b, sb_vmin = vmin', sb_vmax = vmax',
          sb_rsum = nadd rs (nsub (rd8n r p1 0) (rd8n r p2 0)),
          sb_gsum = nadd gs (nsub (rd8n g p1 0) (rd8n g p2 0)),
          sb_bsum = nadd bs (nsub (rd8n b p1 0) (rd8n b p2 0)),
          sb_yi = yi + width, sb_yw = yw, sb_yp = yp\<rparr>)"
  by (simp add: vStep_def Let_def)

lemmas js_eval = nadd_def nsub_def mathRoundDiv_def mathRound_def toUint8Clamp_def rd8_def rd8n_def wr8_def
  rd32_def wr32_def

lemma upt_0_2: "map int [0..<2] = [0, 1]"
  by (simp add: eval_nat_numeral)

lemma rep2: "replicate 2 x = [x, x]"
  by (simp_all add: eval_nat_numeral)

lemma passes_example_2: "stackBlur_passes [0,0,0,255, 255,255,255,255] 2 1 1 = [0,0,0,255,0,0,0,255]"
  by (simp add: stackBlur_passes_def hRow_def vCol_def Let_def hInitStep_eval hStep_eval
     vInitStep_eval vStep_eval js_eval upto_m1_1 upt_0_2 rep2)

lemma naive_example_2: "naive_box_blur [0,0,0,255, 255,255,255,255] 2 1 1 = [85,85,85,255,170,170,170,255]"
  by (simp add: naive_box_blur_def naive_vertical_def naive_horizontal_def boxAverage_def
      windowSum_def clampIndex_def channelAt_def upto_m1_1 round_def)

text \<open>The same two pixels as a column: here \<open>radius < height\<close>, and the passes agree with
  the box average.\<close>

lemma naive_example_column:
  "naive_box_blur [0,0,0,255, 255,255,255,255] 1 2 1 = [85,85,85,255,170,170,170,255]"
  by (simp add: naive_box_blur_def naive_vertical_def naive_horizontal_def boxAverage_def
      windowSum_def clampIndex_def channelAt_def upto_m1_1 round_def)

lemma passes_example_column:
  "stackBlur_passes [0,0,0,255, 255,255,255,255] 1 2 1 = [85,85,85,255,170,170,170,255]"
  using stackBlur_passes_box_average [of "[0,0,0,255, 255,255,255,255]" 1 2 1]
    naive_example_column
  by (simp add: valid_geometry_def)

lemma same_channel_example: "same_channel 0 [10, 20, 30, 255] [10, 99, 98, 7]"
proof -
  have "j = 0" if "j < 4" "int j mod 4 = 0" for j :: nat
    using that by presburger
  then show ?thesis by (auto simp: same_channel_def)
qed

lemma passes_example_1: "stackBlur_passes [10, 20, 30, 255] 1 1 1 = [0, 0, 0, 255]"
  by (simp add: stackBlur_passes_def hRow_def vCol_def Let_def hInitStep_eval hStep_eval
     vInitStep_eval vStep_eval js_eval upto_m1_1)

text \<open>
  Claim C8. \<^verbatim>\<open>stackBlur\<close> leaves every alpha byte (index \<open>4k + 3\<close>) and the length of
  the buffer as they were, for every buffer, geometry and radius, and the bytes of a colour
  channel after the call depend on the bytes of that channel before the call only. This
  holds of the method as it runs (first three conjuncts) and of the two passes in its text
  (last three conjuncts).
\<close>

theorem C8_alpha_and_channels:
  "(\<forall>k. 4 * k + 3 < length pixels \<longrightarrow>
        snd (stackBlur pixels width height radius) ! (4 * k + 3) = pixels ! (4 * k + 3))
   \<and> length (snd (stackBlur pixels width height radius)) = length pixels
   \<and> (\<forall>c q. (c = 0 \<or> c = 1 \<or> c = 2) \<and> same_channel c pixels q \<longrightarrow>
        same_channel c (snd (stackBlur pixels width height radius))
          (snd (stackBlur q width height radius)))
   \<and> (\<forall>k. 4 * k + 3 < length pixels \<longrightarrow>
        stackBlur_passes pixels w h r ! (4 * k + 3) = pixels ! (4 * k + 3))
   \<and> length (stackBlur_passes pixels w h r) = length pixels
   \<and> (\<forall>c q. (c = 0 \<or> c = 1 \<or> c = 2) \<and> same_channel c pixels q \<longrightarrow>
        same_channel c (stackBlur_passes pixels w h r) (stackBlur_passes q w h r))"
proof -
  have a: "alpha_kept pixels (stackBlur_passes pixels w h r)"
    by (rule stackBlur_passes_alpha)
  have 1: "\<forall>k. 4 * k + 3 < length pixels \<longrightarrow>
        stackBlur_passes pixels w h r ! (4 * k + 3) = pixels ! (4 * k + 3)"
  proof (intro allI impI)
    fix k assume "4 * k + 3 < length pixels"
    moreover have "(4 * k + 3) mod 4 = 3" by presburger
    ultimately show "stackBlur_passes pixels w h r ! (4 * k + 3) = pixels ! (4 * k + 3)"
      using a by (simp add: alpha_kept_def)
  qed
  have 2: "length (stackBlur_passes pixels w h r) = length pixels"
    using a by (simp add: alpha_kept_def)
  have 3: "\<forall>c q. (c = 0 \<or> c = 1 \<or> c = 2) \<and> same_channel c pixels q \<longrightarrow>
        same_channel c (stackBlur_passes pixels w h r) (stackBlur_passes q w h r)"
    using stackBlur_passes_channel by blast
  show ?thesis
    using 1 2 3 by (simp add: stackBlur_buffer)
qed

theorem C8_witness:
  "stackBlur_passes [10, 20, 30, 255] 1 1 1 ! 3 = 255
   \<and> snd (stackBlur [10, 20, 30, 255] 1 1 1) ! 3 = 255
   \<and> same_channel 0 [10, 20, 30, 255] [10, 99, 98, 7]
   \<and> same_channel 0 (stackBlur_passes [10, 20, 30, 255] 1 1 1) (stackBlur_passes [10, 99, 98, 7] 1 1 1)"
  using C8_alpha_and_channels [where pixels = "[10, 20, 30, 255]" and w = 1 and h = 1 and r = 1
      and width = 1 and height = 1 and radius = 1]
    same_channel_example
  by simp

text \<open>
  Claim C2, at a failing input. On the buffer of two pixels, black and white, with
  \<open>width = 2\<close>, \<open>height = 1\<close>, \<open>radius = 1\<close>, the box average is 85 and 170 in every
  colour channel. \<^verbatim>\<open>stackBlur\<close> throws a TypeError at \<^verbatim>\<open>divsum *= divsum\<close> and leaves the
  buffer as it was; and the two passes, were they reached, would write 0 to every colour
  byte, since the first loop of the vertical pass reads \<^verbatim>\<open>r[yi]\<close> beyond the last row
  whenever \<open>height \<le> radius\<close>. On the same two pixels as a column (\<open>width = 1\<close>,
  \<open>height = 2\<close>) the passes would give the box average, and \<^verbatim>\<open>stackBlur\<close> throws all the
  same.
\<close>

theorem C2_blur_diverges:
  "stackBlur [0, 0, 0, 255, 255, 255, 255, 255] 2 1 1
     = (Some TypeError, [0, 0, 0, 255, 255, 255, 255, 255])
   \<and> naive_box_blur [0, 0, 0, 255, 255, 255, 255, 255] 2 1 1
     = [85, 85, 85, 255, 170, 170, 170, 255]
   \<and> stackBlur_passes [0, 0, 0, 255, 255, 255, 255, 255] 2 1 1
     = [0, 0, 0, 255, 0, 0, 0, 255]
   \<and> stackBlur [0, 0, 0, 255, 255, 255, 255, 255] 1 2 1
     = (Some TypeError, [0, 0, 0, 255, 255, 255, 255, 255])
   \<and> naive_box_blur [0, 0, 0, 255, 255, 255, 255, 255] 1 2 1
     = [85, 85, 85, 255, 170, 170, 170, 255]
   \<and> stackBlur_passes [0, 0, 0, 255, 255, 255, 255, 255] 1 2 1
     = [85, 85, 85, 255, 170, 170, 170, 255]"
proof -
  have "stackBlur [0, 0, 0, 255, 255, 255, 255, 255] 2 1 1
     = (Some TypeError, [0, 0, 0, 255, 255, 255, 255, 255])"
    "stackBlur [0, 0, 0, 255, 255, 255, 255, 255] 1 2 1
     = (Some TypeError, [0, 0, 0, 255, 255, 255, 255, 255])"
    by (simp_all add: stackBlur_def badLength_def)
  then show ?thesis
    using naive_example_2 passes_example_2 naive_example_column passes_example_column
    by simp
qed

subsection \<open>\<^verbatim>\<open>blurRegion\<close>\<close>

lemma blurRegion_rect_origin:
  "blurRegion_rect p q = (x, y, w, h) \<Longrightarrow> 0 \<le> x \<and> 0 \<le> y"
  by (auto simp: blurRegion_rect_def Let_def)

text \<open>
  Claim C5, at a failing input. In a frame of 100 by 100 pixels, the face box from (70, 40)
  to (95, 80) lies inside the frame; its padded rectangle starts at (62, 32) and is 41 wide,
  so it ends at column 103: only the left and top edges are clamped.
\<close>

theorem C5_region_exceeds_frame:
  "blurRegion_rect (70, 40) (95, 80) = (62, 32, 41, 56)
   \<and> \<not> rect_in_frame 100 100 (blurRegion_rect (70, 40) (95, 80))"
  by (simp add: blurRegion_rect_def rect_in_frame_def Let_def)

subsection \<open>\<^verbatim>\<open>applyBlurredOverlay\<close>\<close>





end
